theory Spec2Isabelle
  imports Main "HOL-Library.Word" "HOL-Library.State_Monad" "HOL-Library.Multiset"
begin

unbundle bit_operations_syntax

section \<open>The queue service of app.py: data model\<close>

text \<open>
  The program is a Flask application over two MongoDB collections: \<open>bookings_col\<close>
  holds one document per ticket, \<open>updates_col\<close> holds the change markers written by
  \<open>notify_update\<close>. The embedding keeps the store as a value that every store call
  reads or returns updated (a state monad over the record \<open>db\<close>), and takes every
  reading of the wall clock (\<open>datetime.now(timezone.utc)\<close>) as an argument of the
  function that reads it.

  An instant is an integer number of milliseconds since the Unix epoch, in UTC: the
  resolution of a stored BSON date.
\<close>

type_synonym time = int

text \<open>
  A BSON ObjectId is twelve bytes, here one 96-bit word. Its four leading bytes are
  the creation time in seconds since the epoch (\<open>generation_time\<close>) and \<open>str\<close> renders
  it as 24 lower-case hexadecimal digits.

  \<open>ObjectId(s)\<close> on a string: a string that is not 24 characters long raises
  InvalidId; otherwise the bytes are \<open>bytes.fromhex(s)\<close>, which reads pairs of
  hexadecimal digits, skips ASCII white space (9 to 13 and 32) before a pair, and
  fails on anything else, which raises InvalidId too. 24 hexadecimal digits give the
  twelve bytes of an identifier (\<open>FullId\<close>); a 24-character string with white space
  between pairs gives fewer bytes (\<open>ShortId\<close>), a value that is the \<open>_id\<close> of no
  document.
\<close>

type_synonym objectid = "96 word"

definition generation_time :: "objectid \<Rightarrow> time" where
  "generation_time oid = int (unat (drop_bit 64 oid)) * 1000"

definition hex_digit :: "char \<Rightarrow> nat option" where
  "hex_digit c =
     (let n = (of_char c :: nat) in
      if 48 \<le> n \<and> n \<le> 57 then Some (n - 48)
      else if 97 \<le> n \<and> n \<le> 102 then Some (n - 87)
      else if 65 \<le> n \<and> n \<le> 70 then Some (n - 55)
      else None)"

definition fromhex_isspace :: "char \<Rightarrow> bool" where
  "fromhex_isspace c = (let n = (of_char c :: nat) in (9 \<le> n \<and> n \<le> 13) \<or> n = 32)"

fun fromhex :: "string \<Rightarrow> nat list option" where
  "fromhex [] = Some []"
| "fromhex [c] = (if fromhex_isspace c then Some [] else None)"
| "fromhex (c # c' # cs) =
     (if fromhex_isspace c then fromhex (c' # cs)
      else case (hex_digit c, hex_digit c') of
             (Some h, Some l) \<Rightarrow> map_option ((#) (16 * h + l)) (fromhex cs)
           | _ \<Rightarrow> None)"

datatype parsed_id = InvalidId | ShortId | FullId objectid

definition ObjectId :: "string \<Rightarrow> parsed_id" where
  "ObjectId s =
     (if length s \<noteq> 24 then InvalidId
      else case fromhex s of
             None \<Rightarrow> InvalidId
           | Some bytes \<Rightarrow>
               if length bytes = 12
               then FullId (of_nat (foldl (\<lambda>acc b. 256 * acc + b) 0 bytes))
               else ShortId)"

text \<open>The parsed identifier is the \<open>_id\<close> of a document with identifier \<open>i\<close>.\<close>

fun id_equals :: "parsed_id \<Rightarrow> objectid \<Rightarrow> bool" where
  "id_equals (FullId oid) i = (i = oid)"
| "id_equals ShortId i = False"
| "id_equals InvalidId i = False"

definition hex_char :: "nat \<Rightarrow> char" where
  "hex_char d = (if d < 10 then char_of (48 + d) else char_of (87 + d))"

definition str_oid :: "objectid \<Rightarrow> string" where
  "str_oid oid = map (\<lambda>i. hex_char (unat (drop_bit (4 * (23 - i)) oid AND 15))) [0..<24]"

text \<open>
  A booking document. \<open>doc_id\<close> is the field \<open>_id\<close>; every other field the program
  reads or writes is optional, \<open>None\<close> meaning that the key is not in the document.
\<close>

record doc =
  doc_id :: objectid
  booking_id :: "string option"
  patient_name :: "string option"
  department :: "string option"
  status :: "string option"
  created_at :: "time option"
  started_at :: "time option"
  completed_at :: "time option"

text \<open>A document of \<open>updates_col\<close>: \<open>notify_update\<close> inserts \<open>{"ts": now}\<close>.\<close>

record update_doc =
  ts :: "time option"

text \<open>
  The store: both collections, each a list in natural order. MongoDB keeps \<open>_id\<close>
  unique within a collection; the properties that depend on it assume
  \<open>distinct (map doc_id (bookings_col s))\<close>.
\<close>

record db =
  bookings_col :: "doc list"
  updates_col :: "update_doc list"

text \<open>
  The argument of a \<open>$set\<close> update: for each of the four fields the program ever
  sets, the new value, or \<open>None\<close> when the key is not in the dictionary.
\<close>

record set_fields =
  set_status :: "string option"
  set_created_at :: "time option"
  set_started_at :: "time option"
  set_completed_at :: "time option"

definition no_fields :: set_fields where
  "no_fields = \<lparr>set_status = None, set_created_at = None,
                 set_started_at = None, set_completed_at = None\<rparr>"

definition apply_set :: "set_fields \<Rightarrow> doc \<Rightarrow> doc" where
  "apply_set u d =
     d\<lparr>status := (case set_status u of None \<Rightarrow> status d | Some v \<Rightarrow> Some v),
       created_at := (case set_created_at u of None \<Rightarrow> created_at d | Some v \<Rightarrow> Some v),
       started_at := (case set_started_at u of None \<Rightarrow> started_at d | Some v \<Rightarrow> Some v),
       completed_at := (case set_completed_at u of None \<Rightarrow> completed_at d | Some v \<Rightarrow> Some v)\<rparr>"

section \<open>The store calls\<close>

text \<open>
  The pymongo calls the program makes, on the list of documents in the collection's
  natural order. A filter is a predicate on documents. \<open>update_one\<close> changes the first
  document that matches and reports \<open>matched_count\<close>. The calls are taken to succeed:
  an exception of the store is caught by the program in \<open>notify_update\<close> only, where
  the outcome of the insert is an argument.
\<close>

fun update_first :: "(doc \<Rightarrow> bool) \<Rightarrow> (doc \<Rightarrow> doc) \<Rightarrow> doc list \<Rightarrow> doc list" where
  "update_first flt f [] = []"
| "update_first flt f (d # ds) = (if flt d then f d # ds else d # update_first flt f ds)"

definition bookings_find :: "(doc \<Rightarrow> bool) \<Rightarrow> (db, doc list) state" where
  "bookings_find flt = State (\<lambda>s. (filter flt (bookings_col s), s))"

definition bookings_find_one :: "(doc \<Rightarrow> bool) \<Rightarrow> (db, doc option) state" where
  "bookings_find_one flt = State (\<lambda>s. (List.find flt (bookings_col s), s))"

definition bookings_count_documents :: "(doc \<Rightarrow> bool) \<Rightarrow> (db, nat) state" where
  "bookings_count_documents flt = State (\<lambda>s. (length (filter flt (bookings_col s)), s))"

definition bookings_update_one :: "(doc \<Rightarrow> bool) \<Rightarrow> set_fields \<Rightarrow> (db, nat) state" where
  "bookings_update_one flt u =
     State (\<lambda>s. (if list_ex flt (bookings_col s) then 1 else 0,
                 s\<lparr>bookings_col := update_first flt (apply_set u) (bookings_col s)\<rparr>))"

definition updates_insert_one :: "update_doc \<Rightarrow> (db, unit) state" where
  "updates_insert_one u = State (\<lambda>s. ((), s\<lparr>updates_col := updates_col s @ [u]\<rparr>))"

text \<open>
  \<open>updates_col.find_one(sort=[("ts", -1)])\<close>: a document with the greatest \<open>ts\<close>, a
  document without the key ranking below every document with it.
\<close>

fun ts_less :: "time option \<Rightarrow> time option \<Rightarrow> bool" where
  "ts_less None (Some b) = True"
| "ts_less (Some a) (Some b) = (a < b)"
| "ts_less a None = False"

fun greatest_ts :: "update_doc \<Rightarrow> update_doc list \<Rightarrow> update_doc" where
  "greatest_ts best [] = best"
| "greatest_ts best (u # us) = greatest_ts (if ts_less (ts best) (ts u) then u else best) us"

definition updates_find_one_latest :: "(db, update_doc option) state" where
  "updates_find_one_latest =
     State (\<lambda>s. (case updates_col s of [] \<Rightarrow> None | u # us \<Rightarrow> Some (greatest_ts u us), s))"

section \<open>Notification helpers\<close>

text \<open>
  \<open>notify_update\<close> inserts a marker and swallows a failure of the insert:
  \<open>insert_ok\<close> is whether the store accepted it.
\<close>

definition notify_update :: "bool \<Rightarrow> time \<Rightarrow> (db, unit) state" where
  "notify_update insert_ok now =
     (if insert_ok then updates_insert_one \<lparr>ts = Some now\<rparr> else State_Monad.return ())"

definition get_latest_update_ts :: "(db, time) state" where
  "get_latest_update_ts = do {
     last \<leftarrow> updates_find_one_latest;
     State_Monad.return (case last of
         None \<Rightarrow> 0
       | Some l \<Rightarrow> (case ts l of Some t \<Rightarrow> t | None \<Rightarrow> 0))
   }"

section \<open>Helpers\<close>

text \<open>
  \<open>_sort_key_by_created_or_oid\<close>: \<open>created_at\<close> when the document has one, else the
  generation time of its ObjectId. Both are read as UTC instants. On a document of
  type \<open>doc\<close> neither branch raises, so the \<open>except\<close> branch is not reached.
\<close>

definition sort_key_by_created_or_oid :: "doc \<Rightarrow> time" where
  "sort_key_by_created_or_oid d =
     (case created_at d of
        Some created \<Rightarrow> created
      | None \<Rightarrow> generation_time (doc_id d))"

definition ensure_defaults :: "time \<Rightarrow> objectid \<Rightarrow> doc \<Rightarrow> (db, doc) state" where
  "ensure_defaults now did d =
     (let update_fields = no_fields;
          update_fields = (if status d = None
                           then update_fields\<lparr>set_status := Some ''waiting''\<rparr>
                           else update_fields);
          update_fields = (if created_at d = None
                           then update_fields\<lparr>set_created_at := Some now\<rparr>
                           else update_fields)
      in if update_fields \<noteq> no_fields
         then do {
           _ \<leftarrow> bookings_update_one (\<lambda>x. doc_id x = did) update_fields;
           State_Monad.return (apply_set update_fields d)
         }
         else State_Monad.return d)"

text \<open>The table \<open>DEPT_SERVICE_TIME\<close> and its lookup \<open>DEPT_SERVICE_TIME.get(dept, 10)\<close>.\<close>

definition DEPT_SERVICE_TIME :: "(string \<times> nat) list" where
  "DEPT_SERVICE_TIME =
     [(''Emergency'', 3), (''Fever'', 2), (''Headache'', 5),
      (''General'', 10), (''General Medicine'', 8), (''Cardiology'', 15)]"

definition service_time_of :: "doc \<Rightarrow> nat" where
  "service_time_of d =
     (let dept = (case department d of None \<Rightarrow> ''General'' | Some v \<Rightarrow> v)
      in case map_of DEPT_SERVICE_TIME dept of None \<Rightarrow> 10 | Some m \<Rightarrow> m)"

record waiting_row =
  row_sno :: nat
  row_id :: string
  row_name :: "string option"
  row_department :: "string option"
  row_booking_id :: "string option"

record in_prog_row =
  ip_id :: string
  ip_name :: "string option"
  ip_department :: "string option"
  ip_booking_id :: "string option"

record stats =
  queue_length :: nat
  estimated_wait_min :: nat
  completed_today :: nat
  waiting :: "waiting_row list"
  in_progress :: "in_prog_row option"
  service_time_map :: "(string \<times> nat) list"
  latest_update_ts :: time

text \<open>
  \<open>today_start\<close> is \<open>now\<close> with hour, minute, second and microsecond set to zero, in
  UTC: the last multiple of a day (86400000 ms) that is not after \<open>now\<close>.
\<close>

definition today_start :: "time \<Rightarrow> time" where
  "today_start now = now - now mod 86400000"

definition completed_since :: "time \<Rightarrow> doc \<Rightarrow> bool" where
  "completed_since t d =
     (status d = Some ''completed'' \<and> (case completed_at d of None \<Rightarrow> False | Some c \<Rightarrow> t \<le> c))"

definition compute_stats :: "time \<Rightarrow> (db, stats) state" where
  "compute_stats now = do {
     waiting_docs \<leftarrow> bookings_find (\<lambda>d. status d = Some ''waiting'');
     let waiting_sorted = sort_key sort_key_by_created_or_oid waiting_docs;
     in_progress \<leftarrow> bookings_find_one (\<lambda>d. status d = Some ''in_progress'');
     completed_today \<leftarrow> bookings_count_documents (completed_since (today_start now));
     let queue_len = length waiting_sorted;
     let total_min = 0;
     let total_min = (case in_progress of
                        Some ip \<Rightarrow> total_min + service_time_of ip
                      | None \<Rightarrow> total_min);
     let total_min = fold (\<lambda>appt acc. acc + service_time_of appt) waiting_sorted total_min;
     let waiting_list = map (\<lambda>(idx, a).
           \<lparr>row_sno = idx + 1, row_id = str_oid (doc_id a), row_name = patient_name a,
            row_department = department a, row_booking_id = booking_id a\<rparr>)
           (enumerate 0 waiting_sorted);
     let in_prog = (case in_progress of
                      None \<Rightarrow> None
                    | Some ip \<Rightarrow> Some \<lparr>ip_id = str_oid (doc_id ip), ip_name = patient_name ip,
                                      ip_department = department ip,
                                      ip_booking_id = booking_id ip\<rparr>);
     latest \<leftarrow> get_latest_update_ts;
     State_Monad.return \<lparr>queue_length = queue_len, estimated_wait_min = total_min,
                         completed_today = completed_today, waiting = waiting_list,
                         in_progress = in_prog, service_time_map = DEPT_SERVICE_TIME,
                         latest_update_ts = latest\<rparr>
   }"

section \<open>Routes\<close>

text \<open>
  The JSON body of a request, as \<open>request.json\<close> hands it to \<open>search\<close>; \<open>truthy\<close> is
  Python's truth value of it. A \<open>JDict\<close> lists the items of the parsed dictionary.
\<close>

datatype json = JNull | JBool bool | JNum int | JStr string
  | JList "json list" | JDict "(string \<times> json) list"

fun truthy :: "json \<Rightarrow> bool" where
  "truthy JNull = False"
| "truthy (JBool b) = b"
| "truthy (JNum n) = (n \<noteq> 0)"
| "truthy (JStr s) = (s \<noteq> [])"
| "truthy (JList xs) = (xs \<noteq> [])"
| "truthy (JDict kvs) = (kvs \<noteq> [])"

text \<open>
  A response is the JSON payload of a success, or an error: the HTTP status 400 or
  404 with the message the route returns, or 500 when the route raises (a body that
  is not a dictionary, a \<open>booking_id\<close> that is not a string).
\<close>

datatype error = BadRequest string | NotFound string | InternalServerError

text \<open>
  \<open>dict.get(key, default)\<close> on the items of a parsed JSON object.
\<close>

definition dict_get :: "(string \<times> json) list \<Rightarrow> string \<Rightarrow> json \<Rightarrow> json" where
  "dict_get items k dflt = (case map_of items k of None \<Rightarrow> dflt | Some v \<Rightarrow> v)"

text \<open>
  \<open>search\<close> normalises the supplied code with \<open>str.strip\<close> and \<open>str.upper\<close>. Both
  are functions of Python's library over all of Unicode; the program only calls
  them. They are the first two arguments of \<open>search\<close>, so every property of
  \<open>search\<close> proved below holds whatever white space \<open>strip\<close> removes and whatever
  letters \<open>upper\<close> maps.
\<close>

definition search ::
  "(string \<Rightarrow> string) \<Rightarrow> (string \<Rightarrow> string) \<Rightarrow> time \<Rightarrow> time \<Rightarrow> bool \<Rightarrow> time \<Rightarrow> json
     \<Rightarrow> (db, error + string) state" where
  "search strip upper now_created now_started insert_ok now_ts data =
     (if \<not> truthy data then State_Monad.return (Inl (BadRequest ''No JSON received''))
      else case data of
        JDict items \<Rightarrow>
          (case dict_get items ''booking_id'' (JStr '''') of
             JStr raw \<Rightarrow>
               (let bid = upper (strip raw) in
                if bid = [] then State_Monad.return (Inl (BadRequest ''Booking ID required''))
                else do {
                  found \<leftarrow> bookings_find_one (\<lambda>d. booking_id d = Some bid);
                  case found of
                    None \<Rightarrow> State_Monad.return (Inl (NotFound ''Not found''))
                  | Some d0 \<Rightarrow> do {
                      d \<leftarrow> ensure_defaults now_created (doc_id d0) d0;
                      n \<leftarrow> bookings_count_documents (\<lambda>x. status x = Some ''in_progress'');
                      _ \<leftarrow> (if n = 0 then do {
                               waiting_docs \<leftarrow> bookings_find (\<lambda>x. status x = Some ''waiting'');
                               if waiting_docs \<noteq> [] then do {
                                 let oldest = hd (sort_key sort_key_by_created_or_oid waiting_docs);
                                 _ \<leftarrow> bookings_update_one (\<lambda>x. doc_id x = doc_id oldest)
                                        (no_fields\<lparr>set_status := Some ''in_progress'',
                                                   set_started_at := Some now_started\<rparr>);
                                 State_Monad.return ()
                               } else State_Monad.return ()
                             } else State_Monad.return ());
                      _ \<leftarrow> notify_update insert_ok now_ts;
                      State_Monad.return (Inr (str_oid (doc_id d)))
                    }
                })
           | _ \<Rightarrow> State_Monad.return (Inl InternalServerError))
      | _ \<Rightarrow> State_Monad.return (Inl InternalServerError))"

definition complete :: "time \<Rightarrow> bool \<Rightarrow> time \<Rightarrow> time \<Rightarrow> string \<Rightarrow> (db, error + stats) state" where
  "complete now insert_ok now_ts now_stats ident =
     (case ObjectId ident of
        InvalidId \<Rightarrow> State_Monad.return (Inl (BadRequest ''Invalid ID''))
      | oid \<Rightarrow> do {
          matched_count \<leftarrow> bookings_update_one
             (\<lambda>x. id_equals oid (doc_id x) \<and> status x = Some ''in_progress'')
             (no_fields\<lparr>set_status := Some ''completed'', set_completed_at := Some now\<rparr>);
          if matched_count = 0
          then State_Monad.return (Inl (NotFound ''No in-progress appointment with that ID''))
          else do {
            waiting_docs \<leftarrow> bookings_find (\<lambda>x. status x = Some ''waiting'');
            _ \<leftarrow> (if waiting_docs \<noteq> [] then do {
                     let next_wait = hd (sort_key sort_key_by_created_or_oid waiting_docs);
                     _ \<leftarrow> bookings_update_one (\<lambda>x. doc_id x = doc_id next_wait)
                            (no_fields\<lparr>set_status := Some ''in_progress'',
                                       set_started_at := Some now\<rparr>);
                     State_Monad.return ()
                   } else State_Monad.return ());
            _ \<leftarrow> notify_update insert_ok now_ts;
            st \<leftarrow> compute_stats now_stats;
            State_Monad.return (Inr st)
          }
        })"

section \<open>Net effects of the routes\<close>

text \<open>
  The store after a route has run, as a function of the store before it. The lemmas
  \<open>search_found\<close> and \<open>complete_matched\<close> below prove that the routes compute
  exactly these states; the definitions are only used to state and prove properties.
\<close>

definition missing_defaults :: "time \<Rightarrow> doc \<Rightarrow> set_fields" where
  "missing_defaults now d =
     \<lparr>set_status = (if status d = None then Some ''waiting'' else None),
      set_created_at = (if created_at d = None then Some now else None),
      set_started_at = None, set_completed_at = None\<rparr>"

definition promotion :: "time \<Rightarrow> set_fields" where
  "promotion t = no_fields\<lparr>set_status := Some ''in_progress'', set_started_at := Some t\<rparr>"

definition completion :: "time \<Rightarrow> set_fields" where
  "completion t = no_fields\<lparr>set_status := Some ''completed'', set_completed_at := Some t\<rparr>"

definition promote :: "time \<Rightarrow> doc list \<Rightarrow> doc list" where
  "promote t ds =
     (let w = filter (\<lambda>x. status x = Some ''waiting'') ds in
      if w \<noteq> []
      then update_first (\<lambda>x. doc_id x = doc_id (hd (sort_key sort_key_by_created_or_oid w)))
             (apply_set (promotion t)) ds
      else ds)"

definition notified :: "bool \<Rightarrow> time \<Rightarrow> db \<Rightarrow> db" where
  "notified ok t s = (if ok then s\<lparr>updates_col := updates_col s @ [\<lparr>ts = Some t\<rparr>]\<rparr> else s)"

definition search_post :: "time \<Rightarrow> time \<Rightarrow> bool \<Rightarrow> time \<Rightarrow> doc \<Rightarrow> db \<Rightarrow> db" where
  "search_post t1 t2 ok t3 d0 s =
     (let b1 = update_first (\<lambda>x. doc_id x = doc_id d0) (apply_set (missing_defaults t1 d0))
                 (bookings_col s);
          b2 = (if filter (\<lambda>x. status x = Some ''in_progress'') b1 = [] then promote t2 b1 else b1)
      in notified ok t3 (s\<lparr>bookings_col := b2\<rparr>))"

definition complete_post :: "time \<Rightarrow> bool \<Rightarrow> time \<Rightarrow> objectid \<Rightarrow> db \<Rightarrow> db" where
  "complete_post now ok t3 oid s =
     (let b1 = update_first (\<lambda>x. doc_id x = oid \<and> status x = Some ''in_progress'')
                 (apply_set (completion now)) (bookings_col s)
      in notified ok t3 (s\<lparr>bookings_col := promote now b1\<rparr>))"

section \<open>Notions of the specification\<close>

text \<open>
  The category table in the specification's words: Emergency 3, Fever 2, Headache 5,
  General 10, General Medicine 8, Cardiology 15, and 10 for a category that is not
  in the table or is missing.
\<close>

definition category_duration :: "string option \<Rightarrow> nat" where
  "category_duration c =
     (if c = Some ''Emergency'' then 3
      else if c = Some ''Fever'' then 2
      else if c = Some ''Headache'' then 5
      else if c = Some ''General'' then 10
      else if c = Some ''General Medicine'' then 8
      else if c = Some ''Cardiology'' then 15
      else 10)"

text \<open>
  Two instants fall on the same calendar day in UTC; a ticket completed on the
  calendar day of \<open>now\<close>; a ticket completed on that day or on a later one.
\<close>

definition same_utc_day :: "time \<Rightarrow> time \<Rightarrow> bool" where
  "same_utc_day a b = (a div 86400000 = b div 86400000)"

definition completed_on_day_of :: "time \<Rightarrow> doc \<Rightarrow> bool" where
  "completed_on_day_of now d =
     (status d = Some ''completed'' \<and>
      (case completed_at d of None \<Rightarrow> False | Some c \<Rightarrow> same_utc_day c now))"

definition completed_from_day_of :: "time \<Rightarrow> doc \<Rightarrow> bool" where
  "completed_from_day_of now d =
     (status d = Some ''completed'' \<and>
      (case completed_at d of None \<Rightarrow> False | Some c \<Rightarrow> now div 86400000 \<le> c div 86400000))"

text \<open>
  FIFO order. The ordering key of a ticket is its \<open>created_at\<close>; when \<open>created_at\<close>
  is missing it is the creation time held in the identifier: the four leading bytes
  of the twelve, in seconds since the epoch. A ticket is the FIFO-earliest of a list
  of documents when it is waiting, every waiting ticket before it in the list has a
  strictly greater key, and every waiting ticket after it has a key that is not
  smaller: the smallest key, and among equal keys the first in the collection's
  order. \<open>with_promoted p t ds\<close> is the list with that one ticket moved to
  \<open>in_progress\<close> and stamped \<open>started_at = t\<close>, everything else as it was.
\<close>

definition fifo_key :: "doc \<Rightarrow> time" where
  "fifo_key d =
     (if created_at d = None then 1000 * (uint (doc_id d) div 2 ^ 64)
      else the (created_at d))"

definition fifo_first :: "doc list \<Rightarrow> doc \<Rightarrow> bool" where
  "fifo_first ds p =
     (status p = Some ''waiting'' \<and>
      (\<exists>us vs. ds = us @ p # vs
         \<and> (\<forall>u \<in> set us. status u = Some ''waiting'' \<longrightarrow> fifo_key p < fifo_key u)
         \<and> (\<forall>v \<in> set vs. status v = Some ''waiting'' \<longrightarrow> fifo_key p \<le> fifo_key v)))"

definition with_promoted :: "doc \<Rightarrow> time \<Rightarrow> doc list \<Rightarrow> doc list" where
  "with_promoted p t ds =
     map (\<lambda>x. if x = p then x\<lparr>status := Some ''in_progress'', started_at := Some t\<rparr> else x) ds"

section \<open>Example data\<close>

text \<open>
  What \<open>str.strip\<close> and \<open>str.upper\<close> compute on ASCII text: \<open>strip\<close> removes the
  characters 9 to 13 and 28 to 32 at both ends, \<open>upper\<close> maps a to z onto A to Z.
  They are the instances of the two library functions in the concrete runs below,
  all of them on ASCII codes.
\<close>

definition ascii_isspace :: "char \<Rightarrow> bool" where
  "ascii_isspace c =
     (let n = (of_char c :: nat) in (9 \<le> n \<and> n \<le> 13) \<or> (28 \<le> n \<and> n \<le> 32))"

definition ascii_strip :: "string \<Rightarrow> string" where
  "ascii_strip s = rev (dropWhile ascii_isspace (rev (dropWhile ascii_isspace s)))"

definition ascii_upper_char :: "char \<Rightarrow> char" where
  "ascii_upper_char c =
     (let n = (of_char c :: nat) in if 97 \<le> n \<and> n \<le> 122 then char_of (n - 32) else c)"

definition ascii_upper :: "string \<Rightarrow> string" where
  "ascii_upper s = map ascii_upper_char s"

text \<open>
  Tickets of category General for the concrete runs: \<open>ticket i code st t\<close> has
  identifier \<open>i\<close>, booking code \<open>code\<close>, status \<open>st\<close> and was created at \<open>t\<close>.
\<close>

definition ticket :: "objectid \<Rightarrow> string \<Rightarrow> string \<Rightarrow> time \<Rightarrow> doc" where
  "ticket i code st t =
     \<lparr>doc_id = i, booking_id = Some code, patient_name = None,
      department = Some ''General'', status = Some st, created_at = Some t,
      started_at = None, completed_at = None\<rparr>"

definition queue_serving :: db where
  "queue_serving =
     \<lparr>bookings_col = [ticket 1 ''T1'' ''in_progress'' 100, ticket 2 ''T2'' ''waiting'' 200,
                      ticket 3 ''T3'' ''waiting'' 300],
      updates_col = []\<rparr>"

definition empty_store :: db where
  "empty_store = \<lparr>bookings_col = [], updates_col = []\<rparr>"

text \<open>
  A record created outside the program, without \<open>status\<close> and \<open>created_at\<close>; a
  store with tickets completed on two days (day 3 starts at 259200000); a store with
  a ticket whose \<open>completed_at\<close> is on day 1.
\<close>

definition legacy :: doc where
  "legacy = \<lparr>doc_id = 7, booking_id = Some ''L7'', patient_name = None, department = None,
             status = None, created_at = None, started_at = None, completed_at = None\<rparr>"

definition legacy_store :: db where
  "legacy_store = \<lparr>bookings_col = [ticket 1 ''T1'' ''waiting'' 100, legacy], updates_col = []\<rparr>"

definition two_days :: db where
  "two_days =
     \<lparr>bookings_col = [(ticket 1 ''T1'' ''completed'' 100)\<lparr>completed_at := Some 259200005\<rparr>,
                      (ticket 2 ''T2'' ''completed'' 200)\<lparr>completed_at := Some 259199999\<rparr>,
                      ticket 3 ''T3'' ''waiting'' 300],
      updates_col = []\<rparr>"

definition completed_tomorrow :: db where
  "completed_tomorrow =
     \<lparr>bookings_col = [(ticket 1 ''T1'' ''completed'' 100)\<lparr>completed_at := Some 90000000\<rparr>],
      updates_col = []\<rparr>"

text \<open>
  Three waiting tickets whose creation order differs from their order in the
  collection; a record that has no \<open>created_at\<close>, whose ObjectId was generated at
  second 1 (instant 1000); two waiting tickets with the same key; a queue where
  that record waits with a ticket created earlier (instant 500), and one where it
  waits with a ticket created later.
\<close>

definition queue_waiting :: db where
  "queue_waiting =
     \<lparr>bookings_col = [ticket 1 ''T1'' ''waiting'' 300, ticket 2 ''T2'' ''waiting'' 100,
                      ticket 3 ''T3'' ''waiting'' 200],
      updates_col = []\<rparr>"

definition old_record :: doc where
  "old_record = \<lparr>doc_id = 0x0000000100000000000000ff, booking_id = Some ''OLD'',
                 patient_name = None, department = None, status = Some ''waiting'',
                 created_at = None, started_at = None, completed_at = None\<rparr>"

definition queue_tied :: db where
  "queue_tied =
     \<lparr>bookings_col = [ticket 1 ''T1'' ''waiting'' 100, ticket 2 ''T2'' ''waiting'' 100],
      updates_col = []\<rparr>"

definition queue_old_late :: db where
  "queue_old_late =
     \<lparr>bookings_col = [ticket 1 ''T1'' ''in_progress'' 100, old_record,
                      ticket 2 ''T2'' ''waiting'' 500],
      updates_col = []\<rparr>"

definition queue_with_old :: db where
  "queue_with_old =
     \<lparr>bookings_col = [ticket 1 ''T1'' ''in_progress'' 5000, ticket 2 ''T2'' ''waiting'' 6000,
                      old_record],
      updates_col = []\<rparr>"

section \<open>The store calls and the routes, run\<close>

lemma run_bookings_find [simp]:
  "run_state (bookings_find flt) s = (filter flt (bookings_col s), s)"
  by (simp add: bookings_find_def)

lemma run_bookings_find_one [simp]:
  "run_state (bookings_find_one flt) s = (List.find flt (bookings_col s), s)"
  by (simp add: bookings_find_one_def)

lemma run_bookings_count_documents [simp]:
  "run_state (bookings_count_documents flt) s = (length (filter flt (bookings_col s)), s)"
  by (simp add: bookings_count_documents_def)

lemma run_bookings_update_one [simp]:
  "run_state (bookings_update_one flt u) s =
     (if list_ex flt (bookings_col s) then 1 else 0,
      s\<lparr>bookings_col := update_first flt (apply_set u) (bookings_col s)\<rparr>)"
  by (simp add: bookings_update_one_def)

lemma run_notify_update [simp]:
  "run_state (notify_update ok now) s = ((), notified ok now s)"
  by (simp add: notify_update_def updates_insert_one_def notified_def)

lemma bookings_col_notified [simp]: "bookings_col (notified ok t s) = bookings_col s"
  by (simp add: notified_def)

lemma update_first_length [simp]: "length (update_first flt f ds) = length ds"
  by (induction ds) auto

lemma update_first_id [simp]: "update_first flt (\<lambda>x. x) ds = ds"
  by (induction ds) auto

lemma update_first_no_match: "\<not> list_ex flt ds \<Longrightarrow> update_first flt f ds = ds"
  by (induction ds) auto

lemma update_first_count_le:
  "length (filter P (update_first flt f ds)) \<le> Suc (length (filter P ds))"
  by (induction ds) auto

lemma update_first_count_drop:
  "list_ex flt ds \<Longrightarrow> (\<And>x. flt x \<Longrightarrow> P x) \<Longrightarrow> (\<And>x. \<not> P (f x)) \<Longrightarrow>
     Suc (length (filter P (update_first flt f ds))) = length (filter P ds)"
  by (induction ds) auto

lemma apply_set_no_fields [simp]: "apply_set no_fields d = d"
  by (simp add: apply_set_def no_fields_def)

lemma apply_set_no_fields_fun [simp]: "apply_set no_fields = (\<lambda>x. x)"
  by (rule ext) simp

lemma doc_id_apply_set [simp]: "doc_id (apply_set u d) = doc_id d"
  by (simp add: apply_set_def)

lemma apply_set_status:
  "status (apply_set u d) = (case set_status u of None \<Rightarrow> status d | Some v \<Rightarrow> Some v)"
  by (simp add: apply_set_def)

lemma missing_defaults_present:
  "status d \<noteq> None \<Longrightarrow> created_at d \<noteq> None \<Longrightarrow> missing_defaults now d = no_fields"
  by (simp add: missing_defaults_def no_fields_def)

lemma missing_defaults_absent:
  "status d = None \<or> created_at d = None \<Longrightarrow> missing_defaults now d \<noteq> no_fields"
  by (auto simp: missing_defaults_def no_fields_def)

lemma ensure_defaults_fields:
  "(let update_fields = no_fields;
        update_fields = (if status d = None
                         then update_fields\<lparr>set_status := Some ''waiting''\<rparr>
                         else update_fields);
        update_fields = (if created_at d = None
                         then update_fields\<lparr>set_created_at := Some now\<rparr>
                         else update_fields)
    in f update_fields) = f (missing_defaults now d)"
  by (simp add: Let_def missing_defaults_def no_fields_def)

lemma run_ensure_defaults:
  "run_state (ensure_defaults now did d) s =
     (apply_set (missing_defaults now d) d,
      s\<lparr>bookings_col := update_first (\<lambda>x. doc_id x = did)
                           (apply_set (missing_defaults now d)) (bookings_col s)\<rparr>)"
proof (cases "status d = None \<or> created_at d = None")
  case True
  then show ?thesis
    unfolding ensure_defaults_def ensure_defaults_fields
    by (simp add: missing_defaults_absent)
next
  case False
  then have "missing_defaults now d = no_fields"
    by (simp add: missing_defaults_present)
  then show ?thesis
    unfolding ensure_defaults_def ensure_defaults_fields by simp
qed

lemma run_compute_stats_state [simp]: "snd (run_state (compute_stats now) s) = s"
  by (simp add: compute_stats_def get_latest_update_ts_def updates_find_one_latest_def
        Let_def case_prod_beta)

lemma search_found:
  assumes "items \<noteq> []"
    and "dict_get items ''booking_id'' (JStr '''') = JStr raw"
    and "upper (strip raw) \<noteq> []"
    and "List.find (\<lambda>d. booking_id d = Some (upper (strip raw))) (bookings_col s) = Some d0"
  shows "run_state (search strip upper t1 t2 ok t3 (JDict items)) s =
           (Inr (str_oid (doc_id d0)), search_post t1 t2 ok t3 d0 s)"
  using assms
  by (simp add: search_def run_ensure_defaults Let_def search_post_def promote_def
        promotion_def split: prod.splits)

lemma search_outcome:
  "(\<exists>e. run_state (search strip upper t1 t2 ok t3 data) s = (Inl e, s)) \<or>
   (\<exists>d0 \<in> set (bookings_col s).
      run_state (search strip upper t1 t2 ok t3 data) s =
        (Inr (str_oid (doc_id d0)), search_post t1 t2 ok t3 d0 s))"
proof (cases data)
  case (JDict items)
  show ?thesis
  proof (cases "items = []")
    case True
    then show ?thesis using JDict by (simp add: search_def)
  next
    case ne: False
    show ?thesis
    proof (cases "dict_get items ''booking_id'' (JStr '''')")
      case (JStr raw)
      show ?thesis
      proof (cases "upper (strip raw) = []")
        case True
        then show ?thesis using JDict ne JStr by (simp add: search_def)
      next
        case False
        show ?thesis
        proof (cases "List.find (\<lambda>d. booking_id d = Some (upper (strip raw))) (bookings_col s)")
          case None
          then show ?thesis using JDict ne JStr False by (simp add: search_def)
        next
          case (Some d0)
          then have "d0 \<in> set (bookings_col s)"
            by (auto simp: find_Some_iff)
          then show ?thesis
            using search_found [where strip = strip and upper = upper, OF ne JStr False Some]
              JDict by blast
        qed
      qed
    qed (use JDict ne in \<open>simp_all add: search_def\<close>)
  qed
qed (simp_all add: search_def)

lemma complete_invalid:
  "ObjectId ident = InvalidId \<Longrightarrow>
     run_state (complete now ok t3 t4 ident) s = (Inl (BadRequest ''Invalid ID''), s)"
  by (simp add: complete_def)

lemma complete_short:
  "ObjectId ident = ShortId \<Longrightarrow>
     run_state (complete now ok t3 t4 ident) s =
       (Inl (NotFound ''No in-progress appointment with that ID''), s)"
  by (simp add: complete_def update_first_no_match list_ex_iff)

lemma complete_unmatched:
  assumes "ObjectId ident = FullId oid"
    and "\<not> list_ex (\<lambda>x. doc_id x = oid \<and> status x = Some ''in_progress'') (bookings_col s)"
  shows "run_state (complete now ok t3 t4 ident) s =
           (Inl (NotFound ''No in-progress appointment with that ID''), s)"
  using assms by (simp add: complete_def update_first_no_match)

lemma complete_matched:
  assumes "ObjectId ident = FullId oid"
    and "list_ex (\<lambda>x. doc_id x = oid \<and> status x = Some ''in_progress'') (bookings_col s)"
  shows "run_state (complete now ok t3 t4 ident) s =
           (Inr (fst (run_state (compute_stats t4) (complete_post now ok t3 oid s))),
            complete_post now ok t3 oid s)"
  using assms
  by (simp add: complete_def Let_def complete_post_def promote_def promotion_def
        completion_def case_prod_beta prod_eq_iff)

section \<open>The single-server invariant\<close>

lemma promote_count_le:
  "length (filter P (promote t ds)) \<le> Suc (length (filter P ds))"
  by (simp add: promote_def Let_def update_first_count_le)

lemma defaults_count_le:
  "length (filter (\<lambda>d. status d = Some ''in_progress'')
      (update_first flt (apply_set (missing_defaults t d0)) ds))
    \<le> length (filter (\<lambda>d. status d = Some ''in_progress'') ds)"
  by (induction ds) (auto simp: apply_set_status missing_defaults_def)

lemma search_post_single_server:
  assumes "length (filter (\<lambda>d. status d = Some ''in_progress'') (bookings_col s)) \<le> 1"
  shows "length (filter (\<lambda>d. status d = Some ''in_progress'')
           (bookings_col (search_post t1 t2 ok t3 d0 s))) \<le> 1"
proof -
  let ?P = "\<lambda>d. status d = Some ''in_progress''"
  let ?b1 = "update_first (\<lambda>x. doc_id x = doc_id d0) (apply_set (missing_defaults t1 d0))
               (bookings_col s)"
  have b1: "length (filter ?P ?b1) \<le> 1"
    using defaults_count_le [of "\<lambda>x. doc_id x = doc_id d0" t1 d0 "bookings_col s"] assms
    by linarith
  show ?thesis
  proof (cases "filter ?P ?b1 = []")
    case True
    then have "length (filter ?P (promote t2 ?b1)) \<le> 1"
      using promote_count_le [of ?P t2 ?b1] by simp
    then show ?thesis using True by (simp add: search_post_def Let_def)
  next
    case False
    then show ?thesis using b1 by (simp add: search_post_def Let_def)
  qed
qed

lemma complete_post_single_server:
  assumes "length (filter (\<lambda>d. status d = Some ''in_progress'') (bookings_col s)) \<le> 1"
    and "list_ex (\<lambda>x. doc_id x = oid \<and> status x = Some ''in_progress'') (bookings_col s)"
  shows "length (filter (\<lambda>d. status d = Some ''in_progress'')
           (bookings_col (complete_post now ok t3 oid s))) \<le> 1"
proof -
  let ?P = "\<lambda>d. status d = Some ''in_progress''"
  let ?b1 = "update_first (\<lambda>x. doc_id x = oid \<and> status x = Some ''in_progress'')
               (apply_set (completion now)) (bookings_col s)"
  have "Suc (length (filter ?P ?b1)) = length (filter ?P (bookings_col s))"
    by (rule update_first_count_drop [OF assms(2)])
       (simp_all add: apply_set_status completion_def no_fields_def)
  then have "length (filter ?P ?b1) = 0" using assms(1) by linarith
  then have "length (filter ?P (promote now ?b1)) \<le> 1"
    using promote_count_le [of ?P now ?b1] by simp
  then show ?thesis by (simp add: complete_post_def Let_def)
qed

text \<open>
  Claim C1. From any store in which at most one ticket has status \<open>in_progress\<close>,
  every run of \<open>search\<close> and every run of \<open>complete\<close>, whatever the request, the
  clock readings and the outcome of the marker insert, ends in a store in which at
  most one ticket has status \<open>in_progress\<close>.
\<close>

theorem single_server_invariant:
  assumes "length (filter (\<lambda>d. status d = Some ''in_progress'') (bookings_col s)) \<le> 1"
  shows "length (filter (\<lambda>d. status d = Some ''in_progress'')
           (bookings_col (snd (run_state (search strip upper t1 t2 ok t3 data) s)))) \<le> 1
       \<and> length (filter (\<lambda>d. status d = Some ''in_progress'')
           (bookings_col (snd (run_state (complete now ok' t3' t4 ident) s)))) \<le> 1"
proof
  show "length (filter (\<lambda>d. status d = Some ''in_progress'')
           (bookings_col (snd (run_state (search strip upper t1 t2 ok t3 data) s)))) \<le> 1"
    using search_outcome [of strip upper t1 t2 ok t3 data s] assms
      search_post_single_server [OF assms]
    by auto
next
  show "length (filter (\<lambda>d. status d = Some ''in_progress'')
           (bookings_col (snd (run_state (complete now ok' t3' t4 ident) s)))) \<le> 1"
  proof (cases "ObjectId ident")
    case InvalidId
    then show ?thesis using assms by (simp add: complete_invalid)
  next
    case ShortId
    then show ?thesis using assms by (simp add: complete_short)
  next
    case (FullId oid)
    show ?thesis
    proof (cases "list_ex (\<lambda>x. doc_id x = oid \<and> status x = Some ''in_progress'') (bookings_col s)")
      case True
      then show ?thesis
        using complete_matched [OF FullId True] complete_post_single_server [OF assms True]
        by simp
    next
      case False
      then show ?thesis using assms complete_unmatched [OF FullId False] by simp
    qed
  qed
qed

theorem single_server_invariant_witness:
  "length (filter (\<lambda>d. status d = Some ''in_progress'') (bookings_col queue_serving)) \<le> 1
   \<and> length (filter (\<lambda>d. status d = Some ''in_progress'')
        (bookings_col (snd (run_state
           (search ascii_strip ascii_upper 1000 1001 True 1002 (JDict [(''booking_id'', JStr '' t2 '')]))
           queue_serving)))) \<le> 1
   \<and> length (filter (\<lambda>d. status d = Some ''in_progress'')
        (bookings_col (snd (run_state
           (complete 2000 True 2001 2002 ''000000000000000000000001'')
           queue_serving)))) \<le> 1"
proof -
  have h: "length (filter (\<lambda>d. status d = Some ''in_progress'') (bookings_col queue_serving)) \<le> 1"
    by (simp add: queue_serving_def ticket_def)
  show ?thesis
    using h single_server_invariant [OF h, of ascii_strip ascii_upper 1000 1001 True 1002
        "JDict [(''booking_id'', JStr '' t2 '')]" 2000 True 2001 2002
        "''000000000000000000000001''"]
    by simp
qed

section \<open>Failures of search\<close>

text \<open>
  Claim C6. The supplied code is the string under \<open>booking_id\<close> in the JSON object of
  the request, or the empty string when the object has no such key; \<open>strip\<close> and
  \<open>upper\<close> are Python's \<open>str.strip\<close> and \<open>str.upper\<close>, and the statement holds
  whatever these two functions compute. If the supplied code is empty after \<open>strip\<close>
  and \<open>upper\<close> (or the object is empty), \<open>search\<close> answers 400 (invalid input); if
  it is not empty and no booking has the normalised code, \<open>search\<close> answers 404 (not
  found). In both cases the store after the call is the store before it: no booking
  is changed and no marker is inserted in \<open>updates_col\<close>.
\<close>

theorem search_input_and_lookup_failures:
  assumes "dict_get items ''booking_id'' (JStr '''') = JStr raw"
  shows "(items = [] \<or> upper (strip raw) = [] \<longrightarrow>
            run_state (search strip upper t1 t2 ok t3 (JDict items)) s =
              (Inl (BadRequest (if items = [] then ''No JSON received''
                                else ''Booking ID required'')), s))
       \<and> (items \<noteq> [] \<and> upper (strip raw) \<noteq> [] \<and>
            (\<forall>d \<in> set (bookings_col s). booking_id d \<noteq> Some (upper (strip raw))) \<longrightarrow>
            run_state (search strip upper t1 t2 ok t3 (JDict items)) s =
              (Inl (NotFound ''Not found''), s))"
proof (intro conjI impI)
  assume "items = [] \<or> upper (strip raw) = []"
  then show "run_state (search strip upper t1 t2 ok t3 (JDict items)) s =
              (Inl (BadRequest (if items = [] then ''No JSON received''
                                else ''Booking ID required'')), s)"
    using assms by (auto simp: search_def)
next
  assume h: "items \<noteq> [] \<and> upper (strip raw) \<noteq> [] \<and>
            (\<forall>d \<in> set (bookings_col s). booking_id d \<noteq> Some (upper (strip raw)))"
  then have "List.find (\<lambda>d. booking_id d = Some (upper (strip raw))) (bookings_col s) = None"
    by (simp add: find_None_iff)
  then show "run_state (search strip upper t1 t2 ok t3 (JDict items)) s =
              (Inl (NotFound ''Not found''), s)"
    using h assms by (simp add: search_def)
qed

theorem search_input_and_lookup_failures_witness:
  "dict_get [(''booking_id'', JStr ''   '')] ''booking_id'' (JStr '''') = JStr ''   ''
   \<and> ascii_upper (ascii_strip ''   '') = []
   \<and> run_state (search ascii_strip ascii_upper 1000 1001 True 1002
         (JDict [(''booking_id'', JStr ''   '')])) queue_serving =
       (Inl (BadRequest ''Booking ID required''), queue_serving)
   \<and> dict_get [(''name'', JStr ''Ann'')] ''booking_id'' (JStr '''') = JStr ''''
   \<and> ascii_upper (ascii_strip '''') = []
   \<and> run_state (search ascii_strip ascii_upper 1000 1001 True 1002
         (JDict [(''name'', JStr ''Ann'')])) queue_serving =
       (Inl (BadRequest ''Booking ID required''), queue_serving)
   \<and> dict_get [(''booking_id'', JStr ''unknown'')] ''booking_id'' (JStr '''') = JStr ''unknown''
   \<and> ascii_upper (ascii_strip ''unknown'') = ''UNKNOWN''
   \<and> bookings_col empty_store = []
   \<and> run_state (search ascii_strip ascii_upper 1000 1001 True 1002
         (JDict [(''booking_id'', JStr ''unknown'')])) empty_store =
       (Inl (NotFound ''Not found''), empty_store)"
proof -
  have a: "dict_get [(''booking_id'', JStr ''   '')] ''booking_id'' (JStr '''') = JStr ''   ''"
    by (simp add: dict_get_def)
  have a': "dict_get [(''name'', JStr ''Ann'')] ''booking_id'' (JStr '''') = JStr ''''"
    by (simp add: dict_get_def)
  have b: "dict_get [(''booking_id'', JStr ''unknown'')] ''booking_id'' (JStr '''') = JStr ''unknown''"
    by (simp add: dict_get_def)
  have c: "ascii_upper (ascii_strip ''   '') = []"
    by code_simp
  have c': "ascii_upper (ascii_strip '''') = []"
    by code_simp
  have d: "ascii_upper (ascii_strip ''unknown'') = ''UNKNOWN''"
    by code_simp
  have e: "\<forall>d \<in> set (bookings_col empty_store). booking_id d \<noteq> Some ''UNKNOWN''"
    by (simp add: empty_store_def)
  have f: "bookings_col empty_store = []"
    by (simp add: empty_store_def)
  have r1: "run_state (search ascii_strip ascii_upper 1000 1001 True 1002
         (JDict [(''booking_id'', JStr ''   '')])) queue_serving =
       (Inl (BadRequest ''Booking ID required''), queue_serving)"
    using search_input_and_lookup_failures [OF a, where strip = ascii_strip
        and upper = ascii_upper and s = queue_serving, of 1000 1001 True 1002] c
    by simp
  have r2: "run_state (search ascii_strip ascii_upper 1000 1001 True 1002
         (JDict [(''name'', JStr ''Ann'')])) queue_serving =
       (Inl (BadRequest ''Booking ID required''), queue_serving)"
    using search_input_and_lookup_failures [OF a', where strip = ascii_strip
        and upper = ascii_upper and s = queue_serving, of 1000 1001 True 1002] c'
    by simp
  have r3: "run_state (search ascii_strip ascii_upper 1000 1001 True 1002
         (JDict [(''booking_id'', JStr ''unknown'')])) empty_store =
       (Inl (NotFound ''Not found''), empty_store)"
    using search_input_and_lookup_failures [OF b, where strip = ascii_strip
        and upper = ascii_upper and s = empty_store, of 1000 1001 True 1002] d e
    by simp
  show ?thesis
    using a a' b c c' d f r1 r2 r3 by simp
qed

section \<open>compute_stats only reads\<close>

text \<open>
  Claim C9. Running \<open>compute_stats\<close> leaves the store as it was: the bookings and the
  markers of \<open>updates_col\<close> are unchanged. Its result is a value: whatever runs after
  it on the store, the statistics it returned are the ones it computed.
\<close>

theorem compute_stats_no_mutation:
  "snd (run_state (compute_stats now) s) = s
   \<and> bookings_col (snd (run_state (compute_stats now) s)) = bookings_col s
   \<and> updates_col (snd (run_state (compute_stats now) s)) = updates_col s
   \<and> fst (run_state (do { st \<leftarrow> compute_stats now; _ \<leftarrow> later; State_Monad.return st }) s)
       = fst (run_state (compute_stats now) s)"
proof -
  have waiting_read: "snd (run_state (bookings_find flt) s') = s'" for flt s'
    by simp
  have in_progress_read: "snd (run_state (bookings_find_one flt) s') = s'" for flt s'
    by simp
  have count_read: "snd (run_state (bookings_count_documents flt) s') = s'" for flt s'
    by simp
  have latest_read: "snd (run_state get_latest_update_ts s') = s'" for s'
    by (simp add: get_latest_update_ts_def updates_find_one_latest_def)
  have same: "snd (run_state (compute_stats now) s) = s"
    unfolding compute_stats_def
    by (simp add: Let_def case_prod_beta waiting_read in_progress_read count_read latest_read)
  have kept: "fst (run_state (do { st \<leftarrow> compute_stats now; _ \<leftarrow> later; State_Monad.return st }) s)
       = fst (run_state (compute_stats now) s)"
    by (simp add: case_prod_beta)
  show ?thesis
    using same kept by simp
qed

section \<open>Failures of complete\<close>

text \<open>
  Claim C10. \<open>complete\<close> fails in two ways only: 400 when \<open>ObjectId\<close> raises InvalidId
  on the identifier, 404 when the conditional update matches no booking: the parsed
  identifier is shorter than twelve bytes, or no booking has it together with status
  \<open>in_progress\<close>. Whenever \<open>complete\<close> fails, the store after the call is the store
  before it: no booking is changed, none is promoted and no marker is inserted.
\<close>

theorem complete_error_atomicity:
  "(ObjectId ident = InvalidId \<longrightarrow>
      run_state (complete now ok t3 t4 ident) s = (Inl (BadRequest ''Invalid ID''), s))
   \<and> (ObjectId ident = ShortId \<longrightarrow>
         run_state (complete now ok t3 t4 ident) s =
           (Inl (NotFound ''No in-progress appointment with that ID''), s))
   \<and> (\<forall>oid. ObjectId ident = FullId oid \<and>
         (\<forall>d \<in> set (bookings_col s). \<not> (doc_id d = oid \<and> status d = Some ''in_progress'')) \<longrightarrow>
         run_state (complete now ok t3 t4 ident) s =
           (Inl (NotFound ''No in-progress appointment with that ID''), s))
   \<and> (\<forall>e. fst (run_state (complete now ok t3 t4 ident) s) = Inl e \<longrightarrow>
         snd (run_state (complete now ok t3 t4 ident) s) = s
         \<and> (e = BadRequest ''Invalid ID'' \<or> e = NotFound ''No in-progress appointment with that ID''))"
proof (cases "ObjectId ident")
  case InvalidId
  then show ?thesis by (simp add: complete_invalid)
next
  case ShortId
  then show ?thesis by (simp add: complete_short)
next
  case (FullId oid)
  show ?thesis
  proof (cases "list_ex (\<lambda>x. doc_id x = oid \<and> status x = Some ''in_progress'') (bookings_col s)")
    case True
    then show ?thesis
      using FullId complete_matched [OF FullId True, of now ok t3 t4]
      by (auto simp: list_ex_iff)
  next
    case False
    then show ?thesis
      using FullId complete_unmatched [OF FullId False, of now ok t3 t4]
      by (auto simp: list_ex_iff)
  qed
qed

theorem complete_error_atomicity_witness:
  "ObjectId ''not-an-id'' = InvalidId
   \<and> run_state (complete 2000 True 2001 2002 ''not-an-id'') queue_serving =
       (Inl (BadRequest ''Invalid ID''), queue_serving)
   \<and> ObjectId ''00 00 00 00 00 00 00 01 '' = ShortId
   \<and> run_state (complete 2000 True 2001 2002 ''00 00 00 00 00 00 00 01 '') queue_serving =
       (Inl (NotFound ''No in-progress appointment with that ID''), queue_serving)
   \<and> ObjectId ''000000000000000000000002'' = FullId 2
   \<and> map doc_id (bookings_col queue_serving) = [1, 2, 3]
   \<and> map status (bookings_col queue_serving) =
       [Some ''in_progress'', Some ''waiting'', Some ''waiting'']
   \<and> run_state (complete 2000 True 2001 2002 ''000000000000000000000002'') queue_serving =
       (Inl (NotFound ''No in-progress appointment with that ID''), queue_serving)
   \<and> fst (run_state (complete 2000 True 2001 2002 ''000000000000000000000002'') queue_serving) =
       Inl (NotFound ''No in-progress appointment with that ID'')
   \<and> snd (run_state (complete 2000 True 2001 2002 ''000000000000000000000002'') queue_serving) =
       queue_serving"
proof -
  have a: "ObjectId ''not-an-id'' = InvalidId"
    by (simp add: ObjectId_def)
  have a': "ObjectId ''00 00 00 00 00 00 00 01 '' = ShortId"
    by (simp add: ObjectId_def hex_digit_def fromhex_isspace_def)
  have b: "ObjectId ''000000000000000000000002'' = FullId 2"
    by (simp add: ObjectId_def hex_digit_def fromhex_isspace_def)
  have c: "\<forall>d \<in> set (bookings_col queue_serving). \<not> (doc_id d = 2 \<and> status d = Some ''in_progress'')"
    by (simp add: queue_serving_def ticket_def)
  have d: "map doc_id (bookings_col queue_serving) = [1, 2, 3]
     \<and> map status (bookings_col queue_serving) =
         [Some ''in_progress'', Some ''waiting'', Some ''waiting'']"
    by (simp add: queue_serving_def ticket_def)
  show ?thesis
    using a a' b c d
      complete_error_atomicity [of "''not-an-id''" 2000 True 2001 2002 queue_serving]
      complete_error_atomicity [of "''00 00 00 00 00 00 00 01 ''" 2000 True 2001 2002 queue_serving]
      complete_error_atomicity [of "''000000000000000000000002''" 2000 True 2001 2002 queue_serving]
    by simp
qed

section \<open>The default-field backfill\<close>

lemma update_first_distinct:
  "distinct (map doc_id ds) \<Longrightarrow> (\<And>x. flt x \<Longrightarrow> doc_id x = i) \<Longrightarrow>
     update_first flt f ds = map (\<lambda>x. if flt x then f x else x) ds"
proof (induction ds)
  case Nil
  then show ?case by simp
next
  case (Cons d ds)
  show ?case
  proof (cases "flt d")
    case True
    then have "doc_id d = i" using Cons.prems(2) by simp
    then have "\<forall>x \<in> set ds. \<not> flt x"
      using Cons.prems by (metis distinct.simps(2) image_eqI list.simps(9) set_map)
    then have "map (\<lambda>x. if flt x then f x else x) ds = ds"
      by (simp add: map_idI)
    then show ?thesis using True by simp
  next
    case False
    then show ?thesis using Cons by simp
  qed
qed

text \<open>
  Claim C8. \<open>ensure_defaults\<close> returns the document with \<open>status\<close> set to
  \<open>waiting\<close> when it had none and \<open>created_at\<close> set to \<open>now\<close> when it had none; a
  status or a creation time that is present is kept, and no other field changes.
  It inserts no marker. On a document that has both fields it changes nothing.
  Running it again on its own result and store changes nothing more. When
  identifiers are distinct and the document is the stored one, the store after the
  call is the store before it with that one document replaced by the repaired one.
\<close>

theorem ensure_defaults_idempotent_repair:
  "fst (run_state (ensure_defaults now did d) s) =
     d\<lparr>status := (case status d of None \<Rightarrow> Some ''waiting'' | Some v \<Rightarrow> Some v),
       created_at := (case created_at d of None \<Rightarrow> Some now | Some c \<Rightarrow> Some c)\<rparr>
   \<and> updates_col (snd (run_state (ensure_defaults now did d) s)) = updates_col s
   \<and> (status d \<noteq> None \<and> created_at d \<noteq> None \<longrightarrow>
        run_state (ensure_defaults now did d) s = (d, s))
   \<and> run_state (ensure_defaults now' did (fst (run_state (ensure_defaults now did d) s)))
        (snd (run_state (ensure_defaults now did d) s))
      = run_state (ensure_defaults now did d) s
   \<and> (distinct (map doc_id (bookings_col s)) \<and> d \<in> set (bookings_col s) \<and> did = doc_id d \<longrightarrow>
        bookings_col (snd (run_state (ensure_defaults now did d) s)) =
          map (\<lambda>x. if x = d then fst (run_state (ensure_defaults now did d) s) else x)
            (bookings_col s))"
proof -
  let ?d' = "apply_set (missing_defaults now d) d"
  have d': "?d' = d\<lparr>status := (case status d of None \<Rightarrow> Some ''waiting'' | Some v \<Rightarrow> Some v),
       created_at := (case created_at d of None \<Rightarrow> Some now | Some c \<Rightarrow> Some c)\<rparr>"
    by (cases "status d"; cases "created_at d") (simp_all add: apply_set_def missing_defaults_def)
  have present: "status ?d' \<noteq> None" "created_at ?d' \<noteq> None"
    unfolding d' by (simp_all split: option.splits)
  have again: "missing_defaults now' ?d' = no_fields"
    using present by (rule missing_defaults_present)
  have same: "run_state (ensure_defaults now did d) s = (d, s)"
    if "status d \<noteq> None" "created_at d \<noteq> None"
    using that by (simp add: run_ensure_defaults missing_defaults_present)
  have stored: "bookings_col (snd (run_state (ensure_defaults now did d) s)) =
          map (\<lambda>x. if x = d then ?d' else x) (bookings_col s)"
    if dist: "distinct (map doc_id (bookings_col s))" and mem: "d \<in> set (bookings_col s)"
      and did: "did = doc_id d"
  proof -
    have "update_first (\<lambda>x. doc_id x = did) (apply_set (missing_defaults now d)) (bookings_col s)
          = map (\<lambda>x. if doc_id x = did then apply_set (missing_defaults now d) x else x) (bookings_col s)"
      by (rule update_first_distinct [OF dist]) simp
    also have "\<dots> = map (\<lambda>x. if x = d then ?d' else x) (bookings_col s)"
    proof (rule map_cong [OF refl])
      fix x assume "x \<in> set (bookings_col s)"
      then have "doc_id x = did \<longleftrightarrow> x = d"
        using dist mem did by (auto simp: distinct_map inj_on_def)
      then show "(if doc_id x = did then apply_set (missing_defaults now d) x else x)
                 = (if x = d then ?d' else x)" by auto
    qed
    finally show ?thesis by (simp add: run_ensure_defaults)
  qed
  have twice: "run_state (ensure_defaults now' did (fst (run_state (ensure_defaults now did d) s)))
        (snd (run_state (ensure_defaults now did d) s))
      = run_state (ensure_defaults now did d) s"
    by (simp add: run_ensure_defaults again)
  have res: "fst (run_state (ensure_defaults now did d) s) = ?d'"
    by (simp add: run_ensure_defaults)
  have upd: "updates_col (snd (run_state (ensure_defaults now did d) s)) = updates_col s"
    by (simp add: run_ensure_defaults)
  have res': "fst (run_state (ensure_defaults now did d) s) =
     d\<lparr>status := (case status d of None \<Rightarrow> Some ''waiting'' | Some v \<Rightarrow> Some v),
       created_at := (case created_at d of None \<Rightarrow> Some now | Some c \<Rightarrow> Some c)\<rparr>"
    using res d' by simp
  have stored': "bookings_col (snd (run_state (ensure_defaults now did d) s)) =
          map (\<lambda>x. if x = d then fst (run_state (ensure_defaults now did d) s) else x)
            (bookings_col s)"
    if "distinct (map doc_id (bookings_col s))" "d \<in> set (bookings_col s)" "did = doc_id d"
    using stored [OF that] res by simp
  show ?thesis
    using res' upd same twice stored' by blast
qed

theorem ensure_defaults_idempotent_repair_witness:
  "status (ticket 2 ''T2'' ''waiting'' 200) \<noteq> None
   \<and> created_at (ticket 2 ''T2'' ''waiting'' 200) \<noteq> None
   \<and> run_state (ensure_defaults 1000 2 (ticket 2 ''T2'' ''waiting'' 200)) queue_serving =
       (ticket 2 ''T2'' ''waiting'' 200, queue_serving)
   \<and> distinct (map doc_id (bookings_col legacy_store))
   \<and> legacy \<in> set (bookings_col legacy_store)
   \<and> fst (run_state (ensure_defaults 1000 7 legacy) legacy_store) =
       legacy\<lparr>status := Some ''waiting'', created_at := Some 1000\<rparr>
   \<and> bookings_col (snd (run_state (ensure_defaults 1000 7 legacy) legacy_store)) =
       [ticket 1 ''T1'' ''waiting'' 100, legacy\<lparr>status := Some ''waiting'', created_at := Some 1000\<rparr>]"
proof -
  have a: "status (ticket 2 ''T2'' ''waiting'' 200) \<noteq> None
           \<and> created_at (ticket 2 ''T2'' ''waiting'' 200) \<noteq> None"
    by (simp add: ticket_def)
  have b: "distinct (map doc_id (bookings_col legacy_store))
           \<and> legacy \<in> set (bookings_col legacy_store) \<and> (7 :: objectid) = doc_id legacy"
    by (simp add: legacy_store_def legacy_def ticket_def)
  have c: "ticket 1 ''T1'' ''waiting'' 100 \<noteq> legacy"
    by (simp add: legacy_def ticket_def)
  have d: "status legacy = None \<and> created_at legacy = None"
    by (simp add: legacy_def)
  have bk: "bookings_col legacy_store = [ticket 1 ''T1'' ''waiting'' 100, legacy]"
    by (simp add: legacy_store_def)
  note t1 = ensure_defaults_idempotent_repair
      [of 1000 2 "ticket 2 ''T2'' ''waiting'' 200" queue_serving 1000]
  note t2 = ensure_defaults_idempotent_repair [of 1000 7 legacy legacy_store 1000]
  have r1: "run_state (ensure_defaults 1000 2 (ticket 2 ''T2'' ''waiting'' 200)) queue_serving =
       (ticket 2 ''T2'' ''waiting'' 200, queue_serving)"
    using t1 a by blast
  have "fst (run_state (ensure_defaults 1000 7 legacy) legacy_store) =
       legacy\<lparr>status := (case status legacy of None \<Rightarrow> Some ''waiting'' | Some v \<Rightarrow> Some v),
              created_at := (case created_at legacy of None \<Rightarrow> Some 1000 | Some c \<Rightarrow> Some c)\<rparr>"
    using t2 by blast
  then have r2: "fst (run_state (ensure_defaults 1000 7 legacy) legacy_store) =
       legacy\<lparr>status := Some ''waiting'', created_at := Some 1000\<rparr>"
    using d by simp
  have "bookings_col (snd (run_state (ensure_defaults 1000 7 legacy) legacy_store)) =
          map (\<lambda>x. if x = legacy then fst (run_state (ensure_defaults 1000 7 legacy) legacy_store)
                    else x) (bookings_col legacy_store)"
    using t2 b by blast
  then have r3: "bookings_col (snd (run_state (ensure_defaults 1000 7 legacy) legacy_store)) =
       [ticket 1 ''T1'' ''waiting'' 100, legacy\<lparr>status := Some ''waiting'', created_at := Some 1000\<rparr>]"
    using c by (simp add: r2 bk)
  show ?thesis
    using a b r1 r2 r3 by blast
qed

section \<open>Statistics\<close>

lemma service_time_of_table: "service_time_of d = category_duration (department d)"
  by (cases "department d")
     (simp_all add: service_time_of_def DEPT_SERVICE_TIME_def category_duration_def Let_def)

lemma fold_add_sum: "fold (\<lambda>a acc. acc + f a) xs (n::nat) = n + sum_list (map f xs)"
  by (induction xs arbitrary: n) auto

lemma sum_list_sort_key:
  "sum_list (map f (sort_key k xs)) = (sum_list (map f xs) :: nat)"
proof -
  have "mset (map f (sort_key k xs)) = mset (map f xs)"
    by simp
  then show ?thesis
    by (metis sum_mset_sum_list)
qed

lemma compute_stats_estimated:
  "estimated_wait_min (fst (run_state (compute_stats now) s)) =
     (case List.find (\<lambda>d. status d = Some ''in_progress'') (bookings_col s) of
        None \<Rightarrow> 0 | Some d \<Rightarrow> service_time_of d)
     + sum_list (map service_time_of (filter (\<lambda>d. status d = Some ''waiting'') (bookings_col s)))"
  by (simp add: compute_stats_def Let_def case_prod_beta fold_add_sum sum_list_sort_key
        split: option.splits)

lemma compute_stats_queue_length:
  "queue_length (fst (run_state (compute_stats now) s)) =
     length (filter (\<lambda>d. status d = Some ''waiting'') (bookings_col s))"
  by (simp add: compute_stats_def Let_def case_prod_beta)

lemma compute_stats_completed_today:
  "completed_today (fst (run_state (compute_stats now) s)) =
     length (filter (completed_since (today_start now)) (bookings_col s))"
  by (simp add: compute_stats_def Let_def case_prod_beta)

text \<open>
  Claim C4. \<open>estimated_wait_min\<close> is the duration of the category of the
  \<open>in_progress\<close> ticket that \<open>find_one\<close> returns, if there is one, plus the sum of the
  durations of the categories of all \<open>waiting\<close> tickets, with the durations of the
  specification's table and 10 for any other or missing category; \<open>queue_length\<close>
  is the number of waiting tickets. With one ticket in progress and two waiting, all
  of category General, the estimate is 30 and the queue length is 2.
\<close>

theorem estimated_wait_minutes:
  "estimated_wait_min (fst (run_state (compute_stats now) s)) =
     (case List.find (\<lambda>d. status d = Some ''in_progress'') (bookings_col s) of
        None \<Rightarrow> 0 | Some d \<Rightarrow> category_duration (department d))
     + sum_list (map (\<lambda>d. category_duration (department d))
         (filter (\<lambda>d. status d = Some ''waiting'') (bookings_col s)))
   \<and> queue_length (fst (run_state (compute_stats now) s)) =
       length (filter (\<lambda>d. status d = Some ''waiting'') (bookings_col s))
   \<and> (bookings_col s = [a, b, c] \<and> status a = Some ''in_progress''
        \<and> status b = Some ''waiting'' \<and> status c = Some ''waiting''
        \<and> department a = Some ''General'' \<and> department b = Some ''General''
        \<and> department c = Some ''General'' \<longrightarrow>
        estimated_wait_min (fst (run_state (compute_stats now) s)) = 30
        \<and> queue_length (fst (run_state (compute_stats now) s)) = 2)"
proof -
  have fn: "service_time_of = (\<lambda>d. category_duration (department d))"
    by (rule ext) (rule service_time_of_table)
  have est: "estimated_wait_min (fst (run_state (compute_stats now) s)) =
     (case List.find (\<lambda>d. status d = Some ''in_progress'') (bookings_col s) of
        None \<Rightarrow> 0 | Some d \<Rightarrow> category_duration (department d))
     + sum_list (map (\<lambda>d. category_duration (department d))
         (filter (\<lambda>d. status d = Some ''waiting'') (bookings_col s)))"
    unfolding compute_stats_estimated fn by (simp split: option.splits)
  have scen: "estimated_wait_min (fst (run_state (compute_stats now) s)) = 30
        \<and> queue_length (fst (run_state (compute_stats now) s)) = 2"
    if "bookings_col s = [a, b, c]" "status a = Some ''in_progress''"
        "status b = Some ''waiting''" "status c = Some ''waiting''"
        "department a = Some ''General''" "department b = Some ''General''"
        "department c = Some ''General''"
    unfolding est compute_stats_queue_length using that
    by (simp add: category_duration_def)
  show ?thesis
    using est compute_stats_queue_length [of now s] scen by blast
qed

theorem estimated_wait_minutes_witness:
  "estimated_wait_min (fst (run_state (compute_stats 5000) queue_serving)) = 30
   \<and> queue_length (fst (run_state (compute_stats 5000) queue_serving)) = 2"
  using estimated_wait_minutes [of 5000 queue_serving "ticket 1 ''T1'' ''in_progress'' 100"
      "ticket 2 ''T2'' ''waiting'' 200" "ticket 3 ''T3'' ''waiting'' 300"]
  by (simp add: queue_serving_def ticket_def)

lemma floor_le_iff:
  fixes n c D :: int
  assumes "0 < D"
  shows "(n - n mod D \<le> c) = (n div D \<le> c div D)"
proof
  assume "n - n mod D \<le> c"
  then have "(n - n mod D) div D \<le> c div D"
    using assms by (rule zdiv_mono1)
  moreover have "(n - n mod D) div D = n div D"
    using assms by (simp add: minus_mod_eq_div_mult)
  ultimately show "n div D \<le> c div D" by simp
next
  assume "n div D \<le> c div D"
  then have "n div D * D \<le> c div D * D"
    using assms by (simp add: mult_right_mono)
  also have "\<dots> = c - c mod D"
    by (simp add: minus_mod_eq_div_mult)
  also have "\<dots> \<le> c"
    using assms by simp
  finally show "n - n mod D \<le> c"
    by (simp add: minus_mod_eq_div_mult)
qed

lemma today_start_le_iff: "today_start now \<le> c \<longleftrightarrow> now div 86400000 \<le> c div 86400000"
  unfolding today_start_def by (rule floor_le_iff) simp

text \<open>
  Claim C7, as stated, fails: \<open>compute_stats\<close> counts a completed ticket whose
  \<open>completed_at\<close> lies after the current calendar day. At instant 1000 (day 0) a
  ticket completed at 90000000 (day 1) is counted, although it was not completed
  within the current day.
\<close>

theorem completed_today_counterexample:
  "completed_today (fst (run_state (compute_stats 1000) completed_tomorrow))
     \<noteq> length (filter (completed_on_day_of 1000) (bookings_col completed_tomorrow))"
  by (simp add: compute_stats_completed_today completed_tomorrow_def ticket_def
        completed_since_def today_start_def completed_on_day_of_def same_utc_day_def)

text \<open>
  Claim C7, amended. \<open>completed_today\<close> is the number of tickets with status
  \<open>completed\<close> whose \<open>completed_at\<close> is at or after the UTC midnight that starts the
  current calendar day, that is, on the current UTC day or a later one; no ticket
  completed before that midnight is counted. When no \<open>completed_at\<close> in the store is
  later than \<open>now\<close>, this is the number of tickets completed within the current
  calendar day.
\<close>

theorem completed_today_since_utc_midnight:
  "completed_today (fst (run_state (compute_stats now) s)) =
     length (filter (completed_from_day_of now) (bookings_col s))
   \<and> ((\<forall>d \<in> set (bookings_col s). \<forall>c. completed_at d = Some c \<longrightarrow> c \<le> now) \<longrightarrow>
        completed_today (fst (run_state (compute_stats now) s)) =
          length (filter (completed_on_day_of now) (bookings_col s)))"
proof -
  have since: "completed_since (today_start now) = completed_from_day_of now"
    by (rule ext)
       (simp add: completed_since_def completed_from_day_of_def today_start_le_iff
          split: option.splits)
  have "filter (completed_from_day_of now) (bookings_col s) =
        filter (completed_on_day_of now) (bookings_col s)"
    if past: "\<forall>d \<in> set (bookings_col s). \<forall>c. completed_at d = Some c \<longrightarrow> c \<le> now"
  proof (rule filter_cong [OF refl])
    fix d assume d: "d \<in> set (bookings_col s)"
    show "completed_from_day_of now d = completed_on_day_of now d"
    proof (cases "completed_at d")
      case None
      then show ?thesis
        by (simp add: completed_from_day_of_def completed_on_day_of_def)
    next
      case (Some c)
      then have "c \<le> now" using past d by blast
      then have "c div 86400000 \<le> now div 86400000"
        by (simp add: zdiv_mono1)
      then show ?thesis
        using Some
        by (auto simp: completed_from_day_of_def completed_on_day_of_def same_utc_day_def)
    qed
  qed
  then show ?thesis
    by (simp add: compute_stats_completed_today since)
qed

theorem completed_today_since_utc_midnight_witness:
  "map completed_at (bookings_col two_days) = [Some 259200005, Some 259199999, None]
   \<and> completed_today (fst (run_state (compute_stats 259201000) two_days)) = 1
   \<and> length (filter (completed_on_day_of 259201000) (bookings_col two_days)) = 1"
proof -
  have a: "\<forall>d \<in> set (bookings_col two_days). \<forall>c. completed_at d = Some c \<longrightarrow> c \<le> 259201000"
    by (simp add: two_days_def ticket_def)
  have b: "length (filter (completed_on_day_of 259201000) (bookings_col two_days)) = 1"
    by (simp add: two_days_def ticket_def completed_on_day_of_def same_utc_day_def)
  have c: "map completed_at (bookings_col two_days) = [Some 259200005, Some 259199999, None]"
    by (simp add: two_days_def ticket_def)
  show ?thesis
    using a b c completed_today_since_utc_midnight [of 259201000 two_days]
    by simp
qed

section \<open>FIFO promotion\<close>

lemma hd_sort_key_min:
  fixes k :: "'a \<Rightarrow> int"
  assumes "xs \<noteq> []"
  shows "hd (sort_key k xs) \<in> set xs \<and> (\<forall>y \<in> set xs. k (hd (sort_key k xs)) \<le> k y)"
proof -
  have "length (sort_key k xs) = length xs"
    by simp
  then have "sort_key k xs \<noteq> []"
    using assms by (cases "sort_key k xs") simp_all
  then obtain z zs where zs: "sort_key k xs = z # zs"
    by (cases "sort_key k xs") simp_all
  have "sorted (map k (sort_key k xs))"
    by (rule sorted_sort_key)
  then have le: "\<forall>y \<in> set zs. k z \<le> k y"
    unfolding zs by simp
  have mem: "set xs = insert z (set zs)"
    using set_sort [of k xs] unfolding zs by simp
  show ?thesis
    unfolding zs mem using le by simp
qed

lemma hd_sort_key_first:
  fixes k :: "'a \<Rightarrow> int"
  assumes ne: "filter P ds \<noteq> []"
  shows "\<exists>us vs. ds = us @ hd (sort_key k (filter P ds)) # vs
           \<and> (\<forall>u \<in> set us. P u \<longrightarrow> k (hd (sort_key k (filter P ds))) < k u)
           \<and> (\<forall>v \<in> set vs. P v \<longrightarrow> k (hd (sort_key k (filter P ds))) \<le> k v)"
proof -
  define W where "W = filter P ds"
  define m where "m = hd (sort_key k W)"
  have min: "m \<in> set W \<and> (\<forall>y \<in> set W. k m \<le> k y)"
    unfolding m_def using ne hd_sort_key_min [of W k] by (simp add: W_def)
  have "sort_key k W \<noteq> []"
  proof
    assume "sort_key k W = []"
    then have "length W = 0"
      using length_sort [of k W] by simp
    then show False
      using ne by (simp add: W_def)
  qed
  then obtain zs where zs: "sort_key k W = m # zs"
    unfolding m_def by (cases "sort_key k W") simp_all
  have "filter (\<lambda>y. k y = k m) (sort_key k W) = filter (\<lambda>y. k y = k m) W"
    by (rule sort_key_stable)
  moreover have "filter (\<lambda>y. k y = k m) (sort_key k W) = m # filter (\<lambda>y. k y = k m) zs"
    by (simp add: zs)
  moreover have "filter (\<lambda>y. k y = k m) W = filter (\<lambda>y. P y \<and> k y = k m) ds"
    by (simp add: W_def)
  ultimately have "filter (\<lambda>y. P y \<and> k y = k m) ds = m # filter (\<lambda>y. k y = k m) zs"
    by simp
  then obtain us vs where dec: "ds = us @ m # vs"
    "\<forall>u \<in> set us. \<not> (P u \<and> k u = k m)"
    unfolding filter_eq_Cons_iff by blast
  have "k m < k u" if "u \<in> set us" "P u" for u
  proof -
    have "u \<in> set W" using that dec(1) by (simp add: W_def)
    then have "k m \<le> k u" using min by blast
    moreover have "k u \<noteq> k m" using dec(2) that by blast
    ultimately show ?thesis by simp
  qed
  moreover have "k m \<le> k v" if "v \<in> set vs" "P v" for v
  proof -
    have "v \<in> set W" using that dec(1) by (simp add: W_def)
    then show ?thesis using min by blast
  qed
  ultimately have "\<exists>us vs. ds = us @ m # vs
           \<and> (\<forall>u \<in> set us. P u \<longrightarrow> k m < k u) \<and> (\<forall>v \<in> set vs. P v \<longrightarrow> k m \<le> k v)"
    using dec(1) by blast
  then show ?thesis
    unfolding m_def W_def .
qed

lemma generation_time_uint: "generation_time oid = 1000 * (uint oid div 2 ^ 64)"
proof -
  have "unat (drop_bit 64 oid) = drop_bit 64 (unat oid)"
    by (rule unat_drop_bit_eq)
  also have "\<dots> = unat oid div 2 ^ 64"
    by (rule drop_bit_eq_div)
  finally have "int (unat (drop_bit 64 oid)) = int (unat oid div 2 ^ 64)"
    by (rule arg_cong [where f = int])
  also have "\<dots> = int (unat oid) div int (2 ^ 64)"
    by (rule zdiv_int)
  also have "int (2 ^ 64) = 2 ^ 64"
    by (simp only: of_nat_power of_nat_numeral)
  also have "int (unat oid) = uint oid"
    by (simp only: uint_nat)
  finally have "int (unat (drop_bit 64 oid)) = uint oid div 2 ^ 64" .
  then show ?thesis
    unfolding generation_time_def by (simp only: mult.commute)
qed

lemma sort_key_is_fifo_key: "sort_key_by_created_or_oid = fifo_key"
proof (rule ext)
  fix d
  show "sort_key_by_created_or_oid d = fifo_key d"
    by (cases "created_at d")
       (simp_all add: sort_key_by_created_or_oid_def fifo_key_def generation_time_uint)
qed

lemma fifo_first_minimal:
  assumes "fifo_first ds p"
  shows "p \<in> set ds \<and> status p = Some ''waiting''
         \<and> (\<forall>w \<in> set ds. status w = Some ''waiting'' \<longrightarrow> fifo_key p \<le> fifo_key w)"
proof -
  obtain us vs where dec: "ds = us @ p # vs"
    "\<forall>u \<in> set us. status u = Some ''waiting'' \<longrightarrow> fifo_key p < fifo_key u"
    "\<forall>v \<in> set vs. status v = Some ''waiting'' \<longrightarrow> fifo_key p \<le> fifo_key v"
    and st: "status p = Some ''waiting''"
    using assms unfolding fifo_first_def by blast
  have "fifo_key p \<le> fifo_key w" if "w \<in> set ds" "status w = Some ''waiting''" for w
  proof -
    have "w \<in> set us \<or> w = p \<or> w \<in> set vs" using that(1) dec(1) by auto
    then show ?thesis using dec(2,3) that(2) by fastforce
  qed
  then show ?thesis using dec(1) st by simp
qed

lemma fifo_first_unique:
  assumes dist: "distinct ds" and p: "fifo_first ds p" and q: "fifo_first ds q"
  shows "p = q"
proof (rule ccontr)
  assume neq: "p \<noteq> q"
  obtain us vs where d1: "ds = us @ p # vs"
    "\<forall>u \<in> set us. status u = Some ''waiting'' \<longrightarrow> fifo_key p < fifo_key u"
    using p unfolding fifo_first_def by blast
  obtain us' vs' where d2: "ds = us' @ q # vs'"
    "\<forall>u \<in> set us'. status u = Some ''waiting'' \<longrightarrow> fifo_key q < fifo_key u"
    using q unfolding fifo_first_def by blast
  have wp: "status p = Some ''waiting''" and wq: "status q = Some ''waiting''"
    using p q unfolding fifo_first_def by blast+
  have le1: "fifo_key p \<le> fifo_key q"
    using fifo_first_minimal [OF p] fifo_first_minimal [OF q] wq by blast
  have le2: "fifo_key q \<le> fifo_key p"
    using fifo_first_minimal [OF p] fifo_first_minimal [OF q] wp by blast
  have "q \<notin> set us" using d1(2) wq le2 by fastforce
  moreover have "p \<notin> set us'" using d2(2) wp le1 by fastforce
  moreover have "us @ p # vs = us' @ q # vs'" using d1(1) d2(1) by simp
  ultimately show False
    using neq by (auto simp: append_eq_append_conv2 append_eq_Cons_conv Cons_eq_append_conv)
qed

lemma map_doc_id_update_first [simp]:
  "map doc_id (update_first flt (apply_set u) ds) = map doc_id ds"
  by (induction ds) auto

lemma doc_id_eq_iff:
  "distinct (map doc_id ds) \<Longrightarrow> p \<in> set ds \<Longrightarrow> x \<in> set ds \<Longrightarrow> doc_id x = doc_id p \<longleftrightarrow> x = p"
  by (auto simp: distinct_map inj_on_def)

lemma apply_set_promotion:
  "apply_set (promotion t) x = x\<lparr>status := Some ''in_progress'', started_at := Some t\<rparr>"
  by (simp add: apply_set_def promotion_def no_fields_def)

lemma apply_set_completion:
  "apply_set (completion t) x = x\<lparr>status := Some ''completed'', completed_at := Some t\<rparr>"
  by (simp add: apply_set_def completion_def no_fields_def)

lemma promote_none:
  "filter (\<lambda>x. status x = Some ''waiting'') ds = [] \<Longrightarrow> promote t ds = ds"
  by (simp add: promote_def)

lemma promote_distinct:
  assumes dist: "distinct (map doc_id ds)"
    and ne: "filter (\<lambda>x. status x = Some ''waiting'') ds \<noteq> []"
  shows "\<exists>p. fifo_first ds p \<and> promote t ds = with_promoted p t ds"
proof -
  define p where "p = hd (sort_key fifo_key (filter (\<lambda>x. status x = Some ''waiting'') ds))"
  have min: "p \<in> set (filter (\<lambda>x. status x = Some ''waiting'') ds)"
    unfolding p_def using hd_sort_key_min [OF ne, of fifo_key] by blast
  then have mem: "p \<in> set ds" and st: "status p = Some ''waiting''"
    by simp_all
  have "\<exists>us vs. ds = us @ p # vs
           \<and> (\<forall>u \<in> set us. status u = Some ''waiting'' \<longrightarrow> fifo_key p < fifo_key u)
           \<and> (\<forall>v \<in> set vs. status v = Some ''waiting'' \<longrightarrow> fifo_key p \<le> fifo_key v)"
    unfolding p_def by (rule hd_sort_key_first [OF ne])
  then have first: "fifo_first ds p"
    unfolding fifo_first_def using st by blast
  have "promote t ds = update_first (\<lambda>x. doc_id x = doc_id p) (apply_set (promotion t)) ds"
    using ne by (simp add: promote_def Let_def p_def sort_key_is_fifo_key)
  also have "\<dots> = map (\<lambda>x. if doc_id x = doc_id p then apply_set (promotion t) x else x) ds"
    by (rule update_first_distinct [OF dist]) simp
  also have "\<dots> = with_promoted p t ds"
    unfolding with_promoted_def
  proof (rule map_cong [OF refl])
    fix x assume "x \<in> set ds"
    then have "doc_id x = doc_id p \<longleftrightarrow> x = p"
      using doc_id_eq_iff [OF dist mem, of x] by simp
    then show "(if doc_id x = doc_id p then apply_set (promotion t) x else x) =
               (if x = p then x\<lparr>status := Some ''in_progress'', started_at := Some t\<rparr> else x)"
      by (simp add: apply_set_promotion)
  qed
  finally show ?thesis using first by blast
qed

lemma search_found_bookings:
  assumes "items \<noteq> []"
    and "dict_get items ''booking_id'' (JStr '''') = JStr raw"
    and "upper (strip raw) \<noteq> []"
    and "List.find (\<lambda>d. booking_id d = Some (upper (strip raw))) (bookings_col s) = Some d0"
  shows "bookings_col (snd (run_state (search strip upper t1 t2 ok t3 (JDict items)) s)) =
     (let b1 = bookings_col (snd (run_state (ensure_defaults t1 (doc_id d0) d0) s))
      in if filter (\<lambda>x. status x = Some ''in_progress'') b1 = [] then promote t2 b1 else b1)"
proof -
  have r: "run_state (search strip upper t1 t2 ok t3 (JDict items)) s =
             (Inr (str_oid (doc_id d0)), search_post t1 t2 ok t3 d0 s)"
    by (rule search_found [where strip = strip and upper = upper, OF assms])
  show ?thesis
    unfolding r by (simp add: search_post_def run_ensure_defaults Let_def)
qed

lemma complete_matched_bookings:
  assumes "ObjectId ident = FullId oid"
    and "list_ex (\<lambda>x. doc_id x = oid \<and> status x = Some ''in_progress'') (bookings_col s)"
  shows "bookings_col (snd (run_state (complete now ok t3 t4 ident) s)) =
     promote now (bookings_col (snd (run_state
        (bookings_update_one (\<lambda>x. doc_id x = oid \<and> status x = Some ''in_progress'')
           (completion now)) s)))"
proof -
  have r: "run_state (complete now ok t3 t4 ident) s =
           (Inr (fst (run_state (compute_stats t4) (complete_post now ok t3 oid s))),
            complete_post now ok t3 oid s)"
    by (rule complete_matched [OF assms])
  show ?thesis
    unfolding r by (simp add: complete_post_def Let_def)
qed

lemma exists_filter_ne: "(\<exists>x \<in> set ds. P x) \<Longrightarrow> filter P ds \<noteq> []"
  by (simp add: filter_empty_conv)

lemma all_filter_empty: "(\<forall>x \<in> set ds. \<not> P x) \<Longrightarrow> filter P ds = []"
  by (simp add: filter_empty_conv)

lemma distinct_defaults:
  "distinct (map doc_id (bookings_col s)) \<Longrightarrow>
     distinct (map doc_id (bookings_col (snd (run_state (ensure_defaults t did d) s))))"
  by (simp add: run_ensure_defaults)

lemma distinct_update_one:
  "distinct (map doc_id (bookings_col s)) \<Longrightarrow>
     distinct (map doc_id (bookings_col (snd (run_state (bookings_update_one flt u) s))))"
  by simp

lemma later_key_not_promoted:
  assumes "fifo_first ds p" "a \<in> set ds" "b \<in> set ds"
    and "status a = Some ''waiting''"
    and "fifo_key a < fifo_key b"
  shows "b \<in> set (with_promoted p t ds)"
proof -
  have "fifo_key p \<le> fifo_key a"
    using fifo_first_minimal [OF assms(1)] assms(2,4) by blast
  then have "b \<noteq> p" using assms(5) by auto
  then show ?thesis
    using assms(3) by (force simp: with_promoted_def)
qed

text \<open>
  Claim C5. Identifiers being distinct, whenever a promotion step runs and some
  ticket is waiting, the store after the route is the store the step started from
  with the FIFO-earliest waiting ticket moved to \<open>in_progress\<close> and stamped
  \<open>started_at\<close>: in \<open>search\<close>, when no ticket is in progress after the backfill
  (stamp: the clock reading of the step); in \<open>complete\<close>, after the conditional
  update matched (stamp: the completion instant). The ordering key is \<open>created_at\<close>,
  or the creation time in the ObjectId when \<open>created_at\<close> is missing
  (\<open>sort_key_is_fifo_key\<close>: the key the program sorts by is that key); the step of
  \<open>search\<close> sees the looked-up ticket with the \<open>created_at\<close> the backfill gave it.
  Hence a waiting ticket with a later key than another waiting ticket is not the
  one promoted: it is still in the store, unchanged.
\<close>

theorem fifo_promotion:
  assumes dist: "distinct (map doc_id (bookings_col s))"
  shows "(items \<noteq> [] \<and> dict_get items ''booking_id'' (JStr '''') = JStr raw
          \<and> upper (strip raw) \<noteq> []
          \<and> List.find (\<lambda>d. booking_id d = Some (upper (strip raw))) (bookings_col s) = Some d0
          \<and> b1 = bookings_col (snd (run_state (ensure_defaults t1 (doc_id d0) d0) s))
          \<and> (\<forall>x \<in> set b1. status x \<noteq> Some ''in_progress'')
          \<and> (\<exists>x \<in> set b1. status x = Some ''waiting'')
          \<longrightarrow> (\<exists>p. fifo_first b1 p \<and>
                 bookings_col (snd (run_state (search strip upper t1 t2 ok t3 (JDict items)) s)) =
                   with_promoted p t2 b1))
       \<and> (ObjectId ident = FullId oid
          \<and> (\<exists>x \<in> set (bookings_col s). doc_id x = oid \<and> status x = Some ''in_progress'')
          \<and> c1 = bookings_col (snd (run_state (bookings_update_one
                   (\<lambda>x. doc_id x = oid \<and> status x = Some ''in_progress'') (completion now)) s))
          \<and> (\<exists>x \<in> set c1. status x = Some ''waiting'')
          \<longrightarrow> (\<exists>p. fifo_first c1 p \<and>
                 bookings_col (snd (run_state (complete now ok' t3' t4 ident) s)) =
                   with_promoted p now c1))
       \<and> (\<forall>ds p t a b. fifo_first ds p \<and> a \<in> set ds \<and> b \<in> set ds
            \<and> status a = Some ''waiting'' \<and> fifo_key a < fifo_key b
            \<longrightarrow> b \<in> set (with_promoted p t ds))"
proof (intro conjI impI allI)
  assume h: "items \<noteq> [] \<and> dict_get items ''booking_id'' (JStr '''') = JStr raw
          \<and> upper (strip raw) \<noteq> []
          \<and> List.find (\<lambda>d. booking_id d = Some (upper (strip raw))) (bookings_col s) = Some d0
          \<and> b1 = bookings_col (snd (run_state (ensure_defaults t1 (doc_id d0) d0) s))
          \<and> (\<forall>x \<in> set b1. status x \<noteq> Some ''in_progress'')
          \<and> (\<exists>x \<in> set b1. status x = Some ''waiting'')"
  then have b1: "b1 = bookings_col (snd (run_state (ensure_defaults t1 (doc_id d0) d0) s))"
    by blast
  have hs: "items \<noteq> []" "dict_get items ''booking_id'' (JStr '''') = JStr raw"
    "upper (strip raw) \<noteq> []"
    "List.find (\<lambda>d. booking_id d = Some (upper (strip raw))) (bookings_col s) = Some d0"
    using h by blast+
  have idle: "filter (\<lambda>x. status x = Some ''in_progress'') b1 = []"
    using h by (intro all_filter_empty) blast
  have ne: "filter (\<lambda>x. status x = Some ''waiting'') b1 \<noteq> []"
    using h by (intro exists_filter_ne) blast
  have d1: "distinct (map doc_id b1)"
    unfolding b1 by (rule distinct_defaults [OF dist])
  have "bookings_col (snd (run_state (search strip upper t1 t2 ok t3 (JDict items)) s)) =
          promote t2 b1"
    using search_found_bookings [where strip = strip and upper = upper, OF hs, of t1 t2 ok t3]
      idle b1
    by (simp add: Let_def)
  then show "\<exists>p. fifo_first b1 p \<and>
                 bookings_col (snd (run_state (search strip upper t1 t2 ok t3 (JDict items)) s)) =
                   with_promoted p t2 b1"
    using promote_distinct [OF d1 ne, of t2] by simp
next
  assume h: "ObjectId ident = FullId oid
          \<and> (\<exists>x \<in> set (bookings_col s). doc_id x = oid \<and> status x = Some ''in_progress'')
          \<and> c1 = bookings_col (snd (run_state (bookings_update_one
                   (\<lambda>x. doc_id x = oid \<and> status x = Some ''in_progress'') (completion now)) s))
          \<and> (\<exists>x \<in> set c1. status x = Some ''waiting'')"
  then have c1: "c1 = bookings_col (snd (run_state (bookings_update_one
                   (\<lambda>x. doc_id x = oid \<and> status x = Some ''in_progress'') (completion now)) s))"
    by blast
  have o: "ObjectId ident = FullId oid"
    using h by blast
  have m: "list_ex (\<lambda>x. doc_id x = oid \<and> status x = Some ''in_progress'') (bookings_col s)"
    using h by (simp add: list_ex_iff)
  have ne: "filter (\<lambda>x. status x = Some ''waiting'') c1 \<noteq> []"
    using h by (intro exists_filter_ne) blast
  have d1: "distinct (map doc_id c1)"
    unfolding c1 by (rule distinct_update_one [OF dist])
  have "bookings_col (snd (run_state (complete now ok' t3' t4 ident) s)) = promote now c1"
    using complete_matched_bookings [OF o m, of now ok' t3' t4] c1 by simp
  then show "\<exists>p. fifo_first c1 p \<and>
                 bookings_col (snd (run_state (complete now ok' t3' t4 ident) s)) =
                   with_promoted p now c1"
    using promote_distinct [OF d1 ne, of now] by simp
next
  fix ds p t a b
  assume "fifo_first ds p \<and> a \<in> set ds \<and> b \<in> set ds
            \<and> status a = Some ''waiting'' \<and> fifo_key a < fifo_key b"
  then show "b \<in> set (with_promoted p t ds)"
    using later_key_not_promoted by blast
qed

theorem fifo_promotion_witness:
  "bookings_col (snd (run_state
      (search ascii_strip ascii_upper 1000 1001 True 1002 (JDict [(''booking_id'', JStr ''t1'')]))
      queue_waiting)) =
     [ticket 1 ''T1'' ''waiting'' 300,
      (ticket 2 ''T2'' ''waiting'' 100)\<lparr>status := Some ''in_progress'', started_at := Some 1001\<rparr>,
      ticket 3 ''T3'' ''waiting'' 200]
   \<and> bookings_col (snd (run_state
      (complete 2000 True 2001 2002 ''000000000000000000000001'') queue_with_old)) =
     [(ticket 1 ''T1'' ''in_progress'' 5000)\<lparr>status := Some ''completed'', completed_at := Some 2000\<rparr>,
      ticket 2 ''T2'' ''waiting'' 6000,
      old_record\<lparr>status := Some ''in_progress'', started_at := Some 2000\<rparr>]
   \<and> bookings_col (snd (run_state
      (complete 2000 True 2001 2002 ''000000000000000000000001'') queue_old_late)) =
     [(ticket 1 ''T1'' ''in_progress'' 100)\<lparr>status := Some ''completed'', completed_at := Some 2000\<rparr>,
      old_record,
      (ticket 2 ''T2'' ''waiting'' 500)\<lparr>status := Some ''in_progress'', started_at := Some 2000\<rparr>]"
proof -
  let ?A = "ticket 1 ''T1'' ''waiting'' 300"
  let ?B = "ticket 2 ''T2'' ''waiting'' 100"
  let ?C = "ticket 3 ''T3'' ''waiting'' 200"
  let ?D = "(ticket 1 ''T1'' ''in_progress'' 5000)\<lparr>status := Some ''completed'', completed_at := Some 2000\<rparr>"
  let ?E = "ticket 2 ''T2'' ''waiting'' 6000"
  let ?F = "(ticket 1 ''T1'' ''in_progress'' 100)\<lparr>status := Some ''completed'', completed_at := Some 2000\<rparr>"
  let ?G = "ticket 2 ''T2'' ''waiting'' 500"
  have bw: "bookings_col queue_waiting = [?A, ?B, ?C]"
    by (simp add: queue_waiting_def)
  have bo: "bookings_col queue_with_old = [ticket 1 ''T1'' ''in_progress'' 5000, ?E, old_record]"
    by (simp add: queue_with_old_def)
  have bl: "bookings_col queue_old_late = [ticket 1 ''T1'' ''in_progress'' 100, old_record, ?G]"
    by (simp add: queue_old_late_def)
  have dw: "distinct (map doc_id (bookings_col queue_waiting))"
    by (simp add: bw ticket_def)
  have do: "distinct (map doc_id (bookings_col queue_with_old))"
    by (simp add: bo ticket_def old_record_def)
  have dl: "distinct (map doc_id (bookings_col queue_old_late))"
    by (simp add: bl ticket_def old_record_def)
  have code: "ascii_upper (ascii_strip ''t1'') = ''T1''"
    by code_simp
  have found: "List.find (\<lambda>d. booking_id d = Some (ascii_upper (ascii_strip ''t1'')))
                 (bookings_col queue_waiting) = Some ?A"
    by (simp add: code bw ticket_def)
  have b1: "bookings_col (snd (run_state (ensure_defaults 1000 (doc_id ?A) ?A) queue_waiting))
              = [?A, ?B, ?C]"
    by (simp add: run_ensure_defaults missing_defaults_present ticket_def bw)
  have oid: "ObjectId ''000000000000000000000001'' = FullId 1"
    by (simp add: ObjectId_def hex_digit_def fromhex_isspace_def)
  have c1: "bookings_col (snd (run_state (bookings_update_one
               (\<lambda>x. doc_id x = 1 \<and> status x = Some ''in_progress'') (completion 2000))
               queue_with_old)) = [?D, ?E, old_record]"
    by (simp add: bo apply_set_completion ticket_def)
  have c2: "bookings_col (snd (run_state (bookings_update_one
               (\<lambda>x. doc_id x = 1 \<and> status x = Some ''in_progress'') (completion 2000))
               queue_old_late)) = [?F, old_record, ?G]"
    by (simp add: bl apply_set_completion ticket_def)
  have keys: "fifo_key ?A = 300" "fifo_key ?B = 100" "fifo_key ?C = 200" "fifo_key ?E = 6000"
    "fifo_key ?G = 500"
    by (simp_all add: fifo_key_def ticket_def)
  have key_old: "fifo_key old_record = 1000"
    by (simp add: fifo_key_def old_record_def)
  have st: "status ?B = Some ''waiting''" "status ?A = Some ''waiting''" "status ?C = Some ''waiting''"
    "status ?D = Some ''completed''" "status ?E = Some ''waiting''"
    "status ?F = Some ''completed''" "status ?G = Some ''waiting''"
    "status old_record = Some ''waiting''"
    by (simp_all add: ticket_def old_record_def)
  note thm1 = fifo_promotion [OF dw, where strip = ascii_strip and upper = ascii_upper
      and items = "[(''booking_id'', JStr ''t1'')]" and raw = "''t1''" and ?d0.0 = ?A
      and ?b1.0 = "[?A, ?B, ?C]" and ?t1.0 = 1000 and ?t2.0 = 1001 and ok = True and ?t3.0 = 1002]
  note thm2 = fifo_promotion [OF do, where ident = "''000000000000000000000001''" and oid = 1
      and ?c1.0 = "[?D, ?E, old_record]" and now = 2000 and ok' = True and t3' = 2001 and ?t4.0 = 2002]
  note thm3 = fifo_promotion [OF dl, where ident = "''000000000000000000000001''" and oid = 1
      and ?c1.0 = "[?F, old_record, ?G]" and now = 2000 and ok' = True and t3' = 2001 and ?t4.0 = 2002]
  have hyp1: "[(''booking_id'', JStr ''t1'')] \<noteq> []
      \<and> dict_get [(''booking_id'', JStr ''t1'')] ''booking_id'' (JStr '''') = JStr ''t1''
      \<and> ascii_upper (ascii_strip ''t1'') \<noteq> []
      \<and> List.find (\<lambda>d. booking_id d = Some (ascii_upper (ascii_strip ''t1'')))
            (bookings_col queue_waiting) = Some ?A
      \<and> [?A, ?B, ?C] = bookings_col (snd (run_state (ensure_defaults 1000 (doc_id ?A) ?A) queue_waiting))
      \<and> (\<forall>x \<in> set [?A, ?B, ?C]. status x \<noteq> Some ''in_progress'')
      \<and> (\<exists>x \<in> set [?A, ?B, ?C]. status x = Some ''waiting'')"
    using found b1 st by (simp add: code dict_get_def)
  obtain p where p: "fifo_first [?A, ?B, ?C] p"
    "bookings_col (snd (run_state
      (search ascii_strip ascii_upper 1000 1001 True 1002 (JDict [(''booking_id'', JStr ''t1'')]))
      queue_waiting)) = with_promoted p 1001 [?A, ?B, ?C]"
    using thm1 [THEN conjunct1, THEN mp, OF hyp1] by blast
  have "p = ?B"
    using fifo_first_minimal [OF p(1)] keys st by auto
  then have r1: "bookings_col (snd (run_state
      (search ascii_strip ascii_upper 1000 1001 True 1002 (JDict [(''booking_id'', JStr ''t1'')]))
      queue_waiting)) =
     [?A, ?B\<lparr>status := Some ''in_progress'', started_at := Some 1001\<rparr>, ?C]"
    using p(2) by (simp add: with_promoted_def ticket_def)
  have hyp2: "ObjectId ''000000000000000000000001'' = FullId 1
      \<and> (\<exists>x \<in> set (bookings_col queue_with_old). doc_id x = 1 \<and> status x = Some ''in_progress'')
      \<and> [?D, ?E, old_record] = bookings_col (snd (run_state (bookings_update_one
               (\<lambda>x. doc_id x = 1 \<and> status x = Some ''in_progress'') (completion 2000))
               queue_with_old))
      \<and> (\<exists>x \<in> set [?D, ?E, old_record]. status x = Some ''waiting'')"
    using oid c1 st by (simp add: bo ticket_def)
  obtain q where q: "fifo_first [?D, ?E, old_record] q"
    "bookings_col (snd (run_state
      (complete 2000 True 2001 2002 ''000000000000000000000001'') queue_with_old)) =
      with_promoted q 2000 [?D, ?E, old_record]"
    using thm2 [THEN conjunct2, THEN conjunct1, THEN mp, OF hyp2] by blast
  have "q = old_record"
    using fifo_first_minimal [OF q(1)] keys key_old st by auto
  then have r2: "bookings_col (snd (run_state
      (complete 2000 True 2001 2002 ''000000000000000000000001'') queue_with_old)) =
     [?D, ?E, old_record\<lparr>status := Some ''in_progress'', started_at := Some 2000\<rparr>]"
    using q(2) by (simp add: with_promoted_def ticket_def old_record_def)
  have hyp3: "ObjectId ''000000000000000000000001'' = FullId 1
      \<and> (\<exists>x \<in> set (bookings_col queue_old_late). doc_id x = 1 \<and> status x = Some ''in_progress'')
      \<and> [?F, old_record, ?G] = bookings_col (snd (run_state (bookings_update_one
               (\<lambda>x. doc_id x = 1 \<and> status x = Some ''in_progress'') (completion 2000))
               queue_old_late))
      \<and> (\<exists>x \<in> set [?F, old_record, ?G]. status x = Some ''waiting'')"
    using oid c2 st by (simp add: bl ticket_def)
  obtain r where r: "fifo_first [?F, old_record, ?G] r"
    "bookings_col (snd (run_state
      (complete 2000 True 2001 2002 ''000000000000000000000001'') queue_old_late)) =
      with_promoted r 2000 [?F, old_record, ?G]"
    using thm3 [THEN conjunct2, THEN conjunct1, THEN mp, OF hyp3] by blast
  have "r = ?G"
    using fifo_first_minimal [OF r(1)] keys key_old st by auto
  then have r3: "bookings_col (snd (run_state
      (complete 2000 True 2001 2002 ''000000000000000000000001'') queue_old_late)) =
     [?F, old_record, ?G\<lparr>status := Some ''in_progress'', started_at := Some 2000\<rparr>]"
    using r(2) by (simp add: with_promoted_def ticket_def old_record_def)
  show ?thesis
    using r1 r2 r3 by simp
qed

section \<open>Completion\<close>

lemma map_doc_id_promote [simp]: "map doc_id (promote t ds) = map doc_id ds"
  by (simp add: promote_def Let_def)

lemma promote_keeps:
  assumes "distinct (map doc_id ds)" "x \<in> set ds" "status x \<noteq> Some ''waiting''"
  shows "x \<in> set (promote t ds)"
proof (cases "filter (\<lambda>x. status x = Some ''waiting'') ds = []")
  case True
  then show ?thesis using assms(2) by (simp add: promote_none)
next
  case False
  then obtain p where p: "fifo_first ds p" "promote t ds = with_promoted p t ds"
    using promote_distinct [OF assms(1)] by blast
  then have "x \<noteq> p" using assms(3) fifo_first_minimal [of ds p] by auto
  then show ?thesis
    using assms(2) p(2) by (force simp: with_promoted_def)
qed

lemma completed_bookings:
  assumes dist: "distinct (map doc_id ds)"
    and d: "d \<in> set ds" "doc_id d = oid" "status d = Some ''in_progress''"
  shows "update_first (\<lambda>x. doc_id x = oid \<and> status x = Some ''in_progress'')
           (apply_set (completion now)) ds
         = map (\<lambda>x. if x = d then d\<lparr>status := Some ''completed'', completed_at := Some now\<rparr> else x) ds"
proof -
  have "update_first (\<lambda>x. doc_id x = oid \<and> status x = Some ''in_progress'')
           (apply_set (completion now)) ds
        = map (\<lambda>x. if doc_id x = oid \<and> status x = Some ''in_progress''
                    then apply_set (completion now) x else x) ds"
    by (rule update_first_distinct [OF dist]) simp
  also have "\<dots> = map (\<lambda>x. if x = d then d\<lparr>status := Some ''completed'', completed_at := Some now\<rparr> else x) ds"
  proof (rule map_cong [OF refl])
    fix x assume "x \<in> set ds"
    then have "doc_id x = oid \<longleftrightarrow> x = d"
      using doc_id_eq_iff [OF dist d(1), of x] d(2) by simp
    then show "(if doc_id x = oid \<and> status x = Some ''in_progress''
                then apply_set (completion now) x else x)
             = (if x = d then d\<lparr>status := Some ''completed'', completed_at := Some now\<rparr> else x)"
      using d(3) by (auto simp: apply_set_completion)
  qed
  finally show ?thesis .
qed

lemma complete_matched_keeps_completed:
  assumes oid: "ObjectId ident = FullId oid"
    and dist: "distinct (map doc_id (bookings_col s))"
    and d: "d \<in> set (bookings_col s)" "doc_id d = oid" "status d = Some ''in_progress''"
  shows "d\<lparr>status := Some ''completed'', completed_at := Some now\<rparr>
           \<in> set (bookings_col (snd (run_state (complete now ok t3 t4 ident) s)))"
proof -
  let ?d' = "d\<lparr>status := Some ''completed'', completed_at := Some now\<rparr>"
  let ?c1 = "update_first (\<lambda>x. doc_id x = oid \<and> status x = Some ''in_progress'')
               (apply_set (completion now)) (bookings_col s)"
  have m: "list_ex (\<lambda>x. doc_id x = oid \<and> status x = Some ''in_progress'') (bookings_col s)"
    using d by (auto simp: list_ex_iff)
  have after: "bookings_col (snd (run_state (complete now ok t3 t4 ident) s)) = promote now ?c1"
    using complete_matched_bookings [OF oid m, of now ok t3 t4] by simp
  have "?c1 = map (\<lambda>x. if x = d then ?d' else x) (bookings_col s)"
    by (rule completed_bookings [OF dist d])
  then have "?d' \<in> set ?c1"
    using d(1) by force
  moreover have "distinct (map doc_id ?c1)"
    using dist by simp
  ultimately have "?d' \<in> set (promote now ?c1)"
    by (intro promote_keeps) simp_all
  then show ?thesis using after by simp
qed

lemma complete_then_unmatched:
  assumes oid: "ObjectId ident = FullId oid"
    and dist: "distinct (map doc_id (bookings_col s))"
  shows "\<not> list_ex (\<lambda>x. doc_id x = oid \<and> status x = Some ''in_progress'')
           (bookings_col (snd (run_state (complete now ok t3 t4 ident) s)))"
proof (cases "list_ex (\<lambda>x. doc_id x = oid \<and> status x = Some ''in_progress'') (bookings_col s)")
  case False
  then show ?thesis
    using complete_unmatched [OF oid False, of now ok t3 t4] by simp
next
  case True
  then obtain d where d: "d \<in> set (bookings_col s)" "doc_id d = oid"
      "status d = Some ''in_progress''"
    by (auto simp: list_ex_iff)
  let ?d' = "d\<lparr>status := Some ''completed'', completed_at := Some now\<rparr>"
  let ?after = "bookings_col (snd (run_state (complete now ok t3 t4 ident) s))"
  have mem: "?d' \<in> set ?after"
    by (rule complete_matched_keeps_completed [OF oid dist d])
  have "map doc_id ?after = map doc_id (bookings_col s)"
    using complete_matched_bookings [OF oid True, of now ok t3 t4] by simp
  then have dist': "distinct (map doc_id ?after)"
    using dist by simp
  have "status x \<noteq> Some ''in_progress''" if "x \<in> set ?after" "doc_id x = oid" for x
  proof -
    have "doc_id x = doc_id ?d'" using that(2) d(2) by simp
    then have "x = ?d'"
      using doc_id_eq_iff [OF dist' mem that(1)] by simp
    then show ?thesis by simp
  qed
  then show ?thesis
    by (auto simp: list_ex_iff)
qed

text \<open>
  Claim C3. For an identifier that parses as an ObjectId, identifiers in the store
  being distinct: \<open>complete\<close> succeeds if and only if a booking with that identifier
  has status \<open>in_progress\<close>; that booking is then in the store with status
  \<open>completed\<close> and \<open>completed_at = now\<close>, its other fields unchanged; when no booking
  with that identifier is in progress (absent, waiting, completed or any other
  status) the answer is 404 and the store is unchanged; and a second call with the
  same identifier, right after the first, always answers 404.
\<close>

theorem complete_succeeds_iff_in_service:
  assumes oid: "ObjectId ident = FullId oid"
    and dist: "distinct (map doc_id (bookings_col s))"
  shows "((\<exists>st. fst (run_state (complete now ok t3 t4 ident) s) = Inr st) \<longleftrightarrow>
            (\<exists>d \<in> set (bookings_col s). doc_id d = oid \<and> status d = Some ''in_progress''))
       \<and> (\<forall>d \<in> set (bookings_col s). doc_id d = oid \<and> status d = Some ''in_progress'' \<longrightarrow>
            d\<lparr>status := Some ''completed'', completed_at := Some now\<rparr>
              \<in> set (bookings_col (snd (run_state (complete now ok t3 t4 ident) s))))
       \<and> (\<not> (\<exists>d \<in> set (bookings_col s). doc_id d = oid \<and> status d = Some ''in_progress'') \<longrightarrow>
            run_state (complete now ok t3 t4 ident) s =
              (Inl (NotFound ''No in-progress appointment with that ID''), s))
       \<and> fst (run_state (complete now' ok' t3' t4' ident)
             (snd (run_state (complete now ok t3 t4 ident) s))) =
           Inl (NotFound ''No in-progress appointment with that ID'')"
proof (intro conjI ballI impI)
  show "(\<exists>st. fst (run_state (complete now ok t3 t4 ident) s) = Inr st) \<longleftrightarrow>
            (\<exists>d \<in> set (bookings_col s). doc_id d = oid \<and> status d = Some ''in_progress'')"
  proof (cases "list_ex (\<lambda>x. doc_id x = oid \<and> status x = Some ''in_progress'') (bookings_col s)")
    case True
    then show ?thesis
      using complete_matched [OF oid True, of now ok t3 t4] by (auto simp: list_ex_iff)
  next
    case False
    then show ?thesis
      using complete_unmatched [OF oid False, of now ok t3 t4] by (auto simp: list_ex_iff)
  qed
next
  fix d assume "d \<in> set (bookings_col s)" "doc_id d = oid \<and> status d = Some ''in_progress''"
  then show "d\<lparr>status := Some ''completed'', completed_at := Some now\<rparr>
              \<in> set (bookings_col (snd (run_state (complete now ok t3 t4 ident) s)))"
    using complete_matched_keeps_completed [OF oid dist] by blast
next
  assume "\<not> (\<exists>d \<in> set (bookings_col s). doc_id d = oid \<and> status d = Some ''in_progress'')"
  then have "\<not> list_ex (\<lambda>x. doc_id x = oid \<and> status x = Some ''in_progress'') (bookings_col s)"
    by (simp add: list_ex_iff)
  then show "run_state (complete now ok t3 t4 ident) s =
              (Inl (NotFound ''No in-progress appointment with that ID''), s)"
    by (rule complete_unmatched [OF oid])
next
  show "fst (run_state (complete now' ok' t3' t4' ident)
             (snd (run_state (complete now ok t3 t4 ident) s))) =
           Inl (NotFound ''No in-progress appointment with that ID'')"
    using complete_unmatched [OF oid complete_then_unmatched [OF oid dist, of now ok t3 t4],
        of now' ok' t3' t4']
    by simp
qed

theorem complete_succeeds_iff_in_service_witness:
  "ObjectId ''000000000000000000000001'' = FullId 1
   \<and> distinct (map doc_id (bookings_col queue_serving))
   \<and> isl (fst (run_state (complete 2000 True 2001 2002 ''000000000000000000000001'')
         queue_serving)) = False
   \<and> bookings_col (snd (run_state (complete 2000 True 2001 2002 ''000000000000000000000001'')
         queue_serving)) ! 0 =
       (ticket 1 ''T1'' ''in_progress'' 100)\<lparr>status := Some ''completed'', completed_at := Some 2000\<rparr>
   \<and> fst (run_state (complete 3000 True 3001 3002 ''000000000000000000000001'')
         (snd (run_state (complete 2000 True 2001 2002 ''000000000000000000000001'')
            queue_serving))) =
       Inl (NotFound ''No in-progress appointment with that ID'')
   \<and> ObjectId ''000000000000000000000002'' = FullId 2
   \<and> run_state (complete 2000 True 2001 2002 ''000000000000000000000002'') queue_serving =
       (Inl (NotFound ''No in-progress appointment with that ID''), queue_serving)"
proof -
  let ?T1 = "ticket 1 ''T1'' ''in_progress'' 100"
  have o1: "ObjectId ''000000000000000000000001'' = FullId 1"
    by (simp add: ObjectId_def hex_digit_def fromhex_isspace_def)
  have o2: "ObjectId ''000000000000000000000002'' = FullId 2"
    by (simp add: ObjectId_def hex_digit_def fromhex_isspace_def)
  have bk: "bookings_col queue_serving =
      [?T1, ticket 2 ''T2'' ''waiting'' 200, ticket 3 ''T3'' ''waiting'' 300]"
    by (simp add: queue_serving_def)
  have dist: "distinct (map doc_id (bookings_col queue_serving))"
    by (simp add: bk ticket_def)
  note t1 = complete_succeeds_iff_in_service [OF o1 dist, of 2000 True 2001 2002 3000 True 3001 3002]
  note t2 = complete_succeeds_iff_in_service [OF o2 dist, of 2000 True 2001 2002 3000 True 3001 3002]
  have in1: "\<exists>d \<in> set (bookings_col queue_serving). doc_id d = 1 \<and> status d = Some ''in_progress''"
    by (simp add: bk ticket_def)
  have no2: "\<not> (\<exists>d \<in> set (bookings_col queue_serving). doc_id d = 2 \<and> status d = Some ''in_progress'')"
    by (simp add: bk ticket_def)
  have "\<exists>st. fst (run_state (complete 2000 True 2001 2002 ''000000000000000000000001'')
         queue_serving) = Inr st"
    using t1 in1 by blast
  then have r1: "isl (fst (run_state (complete 2000 True 2001 2002 ''000000000000000000000001'')
         queue_serving)) = False"
    by auto
  have mem: "?T1\<lparr>status := Some ''completed'', completed_at := Some 2000\<rparr>
      \<in> set (bookings_col (snd (run_state (complete 2000 True 2001 2002 ''000000000000000000000001'')
         queue_serving)))"
    using t1 [THEN conjunct2, THEN conjunct1] bk by (simp add: ticket_def)
  have ids: "map doc_id (bookings_col (snd (run_state
         (complete 2000 True 2001 2002 ''000000000000000000000001'') queue_serving))) = [1, 2, 3]"
    using complete_matched_bookings [OF o1, of queue_serving 2000 True 2001 2002] in1
    by (simp add: list_ex_iff bk ticket_def)
  have r2: "bookings_col (snd (run_state (complete 2000 True 2001 2002 ''000000000000000000000001'')
         queue_serving)) ! 0 =
       ?T1\<lparr>status := Some ''completed'', completed_at := Some 2000\<rparr>"
  proof -
    obtain x y z where xyz: "bookings_col (snd (run_state
         (complete 2000 True 2001 2002 ''000000000000000000000001'') queue_serving)) = [x, y, z]"
      "doc_id x = 1" "doc_id y = 2" "doc_id z = 3"
      using ids by (auto simp: map_eq_Cons_conv)
    have "doc_id (?T1\<lparr>status := Some ''completed'', completed_at := Some 2000\<rparr>) = 1"
      by (simp add: ticket_def)
    then show ?thesis
      using mem xyz by auto
  qed
  have r3: "fst (run_state (complete 3000 True 3001 3002 ''000000000000000000000001'')
         (snd (run_state (complete 2000 True 2001 2002 ''000000000000000000000001'')
            queue_serving))) =
       Inl (NotFound ''No in-progress appointment with that ID'')"
    using t1 by blast
  have r4: "run_state (complete 2000 True 2001 2002 ''000000000000000000000002'') queue_serving =
       (Inl (NotFound ''No in-progress appointment with that ID''), queue_serving)"
    using t2 no2 by blast
  show ?thesis
    using o1 o2 dist r1 r2 r3 r4 by blast
qed

section \<open>The status of the looked-up ticket\<close>

lemma defaults_bookings:
  assumes dist: "distinct (map doc_id (bookings_col s))" and mem: "d0 \<in> set (bookings_col s)"
  shows "bookings_col (snd (run_state (ensure_defaults t (doc_id d0) d0) s)) =
           map (\<lambda>x. if x = d0 then apply_set (missing_defaults t d0) d0 else x) (bookings_col s)"
proof -
  have "update_first (\<lambda>x. doc_id x = doc_id d0) (apply_set (missing_defaults t d0)) (bookings_col s)
        = map (\<lambda>x. if doc_id x = doc_id d0 then apply_set (missing_defaults t d0) x else x)
            (bookings_col s)"
    by (rule update_first_distinct [OF dist]) simp
  also have "\<dots> = map (\<lambda>x. if x = d0 then apply_set (missing_defaults t d0) d0 else x)
                      (bookings_col s)"
  proof (rule map_cong [OF refl])
    fix x assume "x \<in> set (bookings_col s)"
    then have "doc_id x = doc_id d0 \<longleftrightarrow> x = d0"
      using doc_id_eq_iff [OF dist mem, of x] by simp
    then show "(if doc_id x = doc_id d0 then apply_set (missing_defaults t d0) x else x)
             = (if x = d0 then apply_set (missing_defaults t d0) d0 else x)"
      by auto
  qed
  finally show ?thesis by (simp add: run_ensure_defaults)
qed

lemma status_backfilled:
  "status (apply_set (missing_defaults t d) d) =
     (case status d of None \<Rightarrow> Some ''waiting'' | Some v \<Rightarrow> Some v)"
  by (cases "status d") (simp_all add: apply_set_status missing_defaults_def)

lemma find_by_id:
  "distinct (map doc_id ds) \<Longrightarrow> e \<in> set ds \<Longrightarrow>
     List.find (\<lambda>x. doc_id x = doc_id e) ds = Some e"
  by (induction ds) (auto simp: image_iff)

lemma with_promoted_ids [simp]: "map doc_id (with_promoted p t ds) = map doc_id ds"
  by (simp add: with_promoted_def)

text \<open>
  Claim C2, as stated, fails: with three waiting tickets and none in progress,
  \<open>search\<close> for the code of the FIFO-earliest ticket (T2, created first) succeeds,
  returns that ticket's identifier and moves that very ticket from \<open>waiting\<close> to
  \<open>in_progress\<close>.
\<close>

theorem search_mutates_status_counterexample:
  "fst (run_state (search ascii_strip ascii_upper 1000 1001 True 1002
          (JDict [(''booking_id'', JStr ''t2'')])) queue_waiting) = Inr ''000000000000000000000002''
   \<and> map booking_id (bookings_col queue_waiting) = [Some ''T1'', Some ''T2'', Some ''T3'']
   \<and> map status (bookings_col queue_waiting) =
        [Some ''waiting'', Some ''waiting'', Some ''waiting'']
   \<and> map status (bookings_col (snd (run_state
          (search ascii_strip ascii_upper 1000 1001 True 1002
             (JDict [(''booking_id'', JStr ''t2'')])) queue_waiting))) =
        [Some ''waiting'', Some ''in_progress'', Some ''waiting'']"
  by code_simp

text \<open>
  Claim C2, amended. Identifiers being distinct, a successful \<open>search\<close> returns the
  identifier of the looked-up ticket, and the store then holds that ticket as
  follows. The backfill first gives it status \<open>waiting\<close> if it had none and
  \<open>created_at = now\<close> if it had none. If, in the store after the backfill, no ticket
  is in progress and the looked-up ticket is the FIFO-earliest waiting ticket (the
  smallest key, and among equal keys the first in the collection's order), it is set
  to \<open>in_progress\<close> and stamped \<open>started_at\<close>. In every other case it is exactly the
  backfilled ticket: its status is the one it had, or \<open>waiting\<close> when it had none.
\<close>

theorem search_status_of_looked_up_ticket:
  assumes dist: "distinct (map doc_id (bookings_col s))"
    and ne: "items \<noteq> []"
    and req: "dict_get items ''booking_id'' (JStr '''') = JStr raw"
    and code: "upper (strip raw) \<noteq> []"
    and found: "List.find (\<lambda>d. booking_id d = Some (upper (strip raw))) (bookings_col s) = Some d0"
    and b1: "b1 = bookings_col (snd (run_state (ensure_defaults t1 (doc_id d0) d0) s))"
    and d1: "d1 = fst (run_state (ensure_defaults t1 (doc_id d0) d0) s)"
  shows "fst (run_state (search strip upper t1 t2 ok t3 (JDict items)) s) = Inr (str_oid (doc_id d0))
     \<and> status d1 = (case status d0 of None \<Rightarrow> Some ''waiting'' | Some v \<Rightarrow> Some v)
     \<and> List.find (\<lambda>x. doc_id x = doc_id d0)
          (bookings_col (snd (run_state (search strip upper t1 t2 ok t3 (JDict items)) s))) =
        Some (if (\<forall>y \<in> set b1. status y \<noteq> Some ''in_progress'') \<and> fifo_first b1 d1
              then d1\<lparr>status := Some ''in_progress'', started_at := Some t2\<rparr>
              else d1)"
proof -
  let ?after = "bookings_col (snd (run_state (search strip upper t1 t2 ok t3 (JDict items)) s))"
  have d1': "d1 = apply_set (missing_defaults t1 d0) d0"
    unfolding d1 by (simp add: run_ensure_defaults)
  have id1: "doc_id d1 = doc_id d0"
    unfolding d1' by simp
  have mem0: "d0 \<in> set (bookings_col s)"
    using found by (auto simp: find_Some_iff)
  have b1': "b1 = map (\<lambda>x. if x = d0 then d1 else x) (bookings_col s)"
    unfolding b1 d1' by (rule defaults_bookings [OF dist mem0])
  have mem1: "d1 \<in> set b1"
    unfolding b1' using mem0 by force
  have dist1: "distinct (map doc_id b1)"
    unfolding b1 by (rule distinct_defaults [OF dist])
  then have distb: "distinct b1"
    by (simp add: distinct_map)
  have st1: "status d1 = (case status d0 of None \<Rightarrow> Some ''waiting'' | Some v \<Rightarrow> Some v)"
    unfolding d1' by (rule status_backfilled)
  have after: "?after =
      (if filter (\<lambda>x. status x = Some ''in_progress'') b1 = [] then promote t2 b1 else b1)"
    using search_found_bookings [where strip = strip and upper = upper, OF ne req code found,
        of t1 t2 ok t3] b1
    by (simp add: Let_def)
  have res: "fst (run_state (search strip upper t1 t2 ok t3 (JDict items)) s) =
               Inr (str_oid (doc_id d0))"
    using search_found [where strip = strip and upper = upper, OF ne req code found,
        of t1 t2 ok t3] by simp
  have idle_iff: "filter (\<lambda>x. status x = Some ''in_progress'') b1 = [] \<longleftrightarrow>
                  (\<forall>y \<in> set b1. status y \<noteq> Some ''in_progress'')"
    by (simp add: filter_empty_conv)
  have look: "List.find (\<lambda>x. doc_id x = doc_id d0) ?after =
        Some (if (\<forall>y \<in> set b1. status y \<noteq> Some ''in_progress'') \<and> fifo_first b1 d1
              then d1\<lparr>status := Some ''in_progress'', started_at := Some t2\<rparr>
              else d1)"
  proof (cases "filter (\<lambda>x. status x = Some ''in_progress'') b1 = []
                \<and> filter (\<lambda>x. status x = Some ''waiting'') b1 \<noteq> []")
    case False
    then have same: "?after = b1"
      unfolding after by (auto simp: promote_none)
    have "\<not> ((\<forall>y \<in> set b1. status y \<noteq> Some ''in_progress'') \<and> fifo_first b1 d1)"
    proof
      assume c: "(\<forall>y \<in> set b1. status y \<noteq> Some ''in_progress'') \<and> fifo_first b1 d1"
      then have "status d1 = Some ''waiting''"
        using fifo_first_minimal [of b1 d1] by blast
      then have "filter (\<lambda>x. status x = Some ''waiting'') b1 \<noteq> []"
        using mem1 by (auto simp: filter_empty_conv)
      then show False using False c idle_iff by blast
    qed
    moreover have "List.find (\<lambda>x. doc_id x = doc_id d0) b1 = Some d1"
      using find_by_id [OF dist1 mem1] id1 by simp
    ultimately show ?thesis using same by auto
  next
    case True
    then obtain p where p: "fifo_first b1 p" "?after = with_promoted p t2 b1"
      unfolding after using promote_distinct [OF dist1, of t2] by auto
    have idle: "\<forall>y \<in> set b1. status y \<noteq> Some ''in_progress''"
      using True idle_iff by blast
    have dista: "distinct (map doc_id ?after)"
      unfolding p(2) using dist1 by simp
    show ?thesis
    proof (cases "d1 = p")
      case same: True
      let ?e = "d1\<lparr>status := Some ''in_progress'', started_at := Some t2\<rparr>"
      have "?e \<in> set ?after"
        unfolding p(2) with_promoted_def using mem1 same by force
      then have "List.find (\<lambda>x. doc_id x = doc_id ?e) ?after = Some ?e"
        by (rule find_by_id [OF dista])
      then show ?thesis using idle p(1) same id1 by simp
    next
      case diff: False
      have "\<not> fifo_first b1 d1"
        using fifo_first_unique [OF distb _ p(1)] diff by blast
      moreover have "d1 \<in> set ?after"
        unfolding p(2) with_promoted_def using mem1 diff by force
      then have "List.find (\<lambda>x. doc_id x = doc_id d1) ?after = Some d1"
        by (rule find_by_id [OF dista])
      ultimately show ?thesis using id1 by simp
    qed
  qed
  show ?thesis
    using res st1 look by blast
qed

theorem search_status_of_looked_up_ticket_witness:
  "List.find (\<lambda>x. doc_id x = 2) (bookings_col (snd (run_state
      (search ascii_strip ascii_upper 1000 1001 True 1002 (JDict [(''booking_id'', JStr '' t2 '')]))
      queue_serving))) = Some (ticket 2 ''T2'' ''waiting'' 200)
   \<and> List.find (\<lambda>x. doc_id x = 2) (bookings_col (snd (run_state
      (search ascii_strip ascii_upper 1000 1001 True 1002 (JDict [(''booking_id'', JStr '' t2 '')]))
      queue_waiting))) =
       Some ((ticket 2 ''T2'' ''waiting'' 100)\<lparr>status := Some ''in_progress'',
                                                started_at := Some 1001\<rparr>)
   \<and> List.find (\<lambda>x. doc_id x = 2) (bookings_col (snd (run_state
      (search ascii_strip ascii_upper 1000 1001 True 1002 (JDict [(''booking_id'', JStr '' t2 '')]))
      queue_tied))) = Some (ticket 2 ''T2'' ''waiting'' 100)"
proof -
  let ?S1 = "ticket 1 ''T1'' ''in_progress'' 100"
  let ?S2 = "ticket 2 ''T2'' ''waiting'' 200"
  let ?S3 = "ticket 3 ''T3'' ''waiting'' 300"
  let ?A = "ticket 1 ''T1'' ''waiting'' 300"
  let ?B = "ticket 2 ''T2'' ''waiting'' 100"
  let ?C = "ticket 3 ''T3'' ''waiting'' 200"
  let ?X = "ticket 1 ''T1'' ''waiting'' 100"
  have bs: "bookings_col queue_serving = [?S1, ?S2, ?S3]"
    by (simp add: queue_serving_def)
  have bw: "bookings_col queue_waiting = [?A, ?B, ?C]"
    by (simp add: queue_waiting_def)
  have bt: "bookings_col queue_tied = [?X, ?B]"
    by (simp add: queue_tied_def)
  have ds: "distinct (map doc_id (bookings_col queue_serving))"
    by (simp add: bs ticket_def)
  have dw: "distinct (map doc_id (bookings_col queue_waiting))"
    by (simp add: bw ticket_def)
  have dt: "distinct (map doc_id (bookings_col queue_tied))"
    by (simp add: bt ticket_def)
  have ne: "[(''booking_id'', JStr '' t2 '')] \<noteq> []"
    by simp
  have req: "dict_get [(''booking_id'', JStr '' t2 '')] ''booking_id'' (JStr '''') = JStr '' t2 ''"
    by (simp add: dict_get_def)
  have code: "ascii_upper (ascii_strip '' t2 '') = ''T2''"
    by code_simp
  have nonempty: "ascii_upper (ascii_strip '' t2 '') \<noteq> []"
    by (simp add: code)
  have fs: "List.find (\<lambda>d. booking_id d = Some (ascii_upper (ascii_strip '' t2 '')))
              (bookings_col queue_serving) = Some ?S2"
    by (simp add: code bs ticket_def)
  have fw: "List.find (\<lambda>d. booking_id d = Some (ascii_upper (ascii_strip '' t2 '')))
              (bookings_col queue_waiting) = Some ?B"
    by (simp add: code bw ticket_def)
  have ft: "List.find (\<lambda>d. booking_id d = Some (ascii_upper (ascii_strip '' t2 '')))
              (bookings_col queue_tied) = Some ?B"
    by (simp add: code bt ticket_def)
  have es: "[?S1, ?S2, ?S3] = bookings_col (snd (run_state (ensure_defaults 1000 (doc_id ?S2) ?S2)
              queue_serving))"
    "?S2 = fst (run_state (ensure_defaults 1000 (doc_id ?S2) ?S2) queue_serving)"
    by (simp_all add: run_ensure_defaults missing_defaults_present ticket_def bs)
  have ew: "[?A, ?B, ?C] = bookings_col (snd (run_state (ensure_defaults 1000 (doc_id ?B) ?B)
              queue_waiting))"
    "?B = fst (run_state (ensure_defaults 1000 (doc_id ?B) ?B) queue_waiting)"
    by (simp_all add: run_ensure_defaults missing_defaults_present ticket_def bw)
  have et: "[?X, ?B] = bookings_col (snd (run_state (ensure_defaults 1000 (doc_id ?B) ?B)
              queue_tied))"
    "?B = fst (run_state (ensure_defaults 1000 (doc_id ?B) ?B) queue_tied)"
    by (simp_all add: run_ensure_defaults missing_defaults_present ticket_def bt)
  have ids: "doc_id ?S2 = 2" "doc_id ?B = 2"
    by (simp_all add: ticket_def)
  have keys: "fifo_key ?A = 300" "fifo_key ?B = 100" "fifo_key ?C = 200" "fifo_key ?X = 100"
    by (simp_all add: fifo_key_def ticket_def)
  have st: "status ?A = Some ''waiting''" "status ?B = Some ''waiting''"
    "status ?C = Some ''waiting''" "status ?X = Some ''waiting''"
    "status ?S1 = Some ''in_progress''"
    by (simp_all add: ticket_def)
  have busy: "\<not> (\<forall>y \<in> set [?S1, ?S2, ?S3]. status y \<noteq> Some ''in_progress'')"
    using st by simp
  have idle: "\<forall>y \<in> set [?A, ?B, ?C]. status y \<noteq> Some ''in_progress''"
    using st by simp
  have "[?A, ?B, ?C] = [?A] @ ?B # [?C]"
    by simp
  then have first: "fifo_first [?A, ?B, ?C] ?B"
    unfolding fifo_first_def using keys st by (intro conjI exI [of _ "[?A]"] exI [of _ "[?C]"]) simp_all
  have "[?X, ?B] = [] @ ?X # [?B]"
    by simp
  then have firstX: "fifo_first [?X, ?B] ?X"
    unfolding fifo_first_def using keys st by (intro conjI exI [of _ "[]"] exI [of _ "[?B]"]) simp_all
  have distinctXB: "distinct [?X, ?B]"
    by (simp add: ticket_def)
  have tied: "\<not> fifo_first [?X, ?B] ?B"
  proof
    assume "fifo_first [?X, ?B] ?B"
    then have "?B = ?X"
      using firstX by (rule fifo_first_unique [OF distinctXB])
    then show False
      by (simp add: ticket_def)
  qed
  have n1: "\<not> ((\<forall>y \<in> set [?S1, ?S2, ?S3]. status y \<noteq> Some ''in_progress'')
                \<and> fifo_first [?S1, ?S2, ?S3] ?S2)"
    using busy by blast
  have c2: "(\<forall>y \<in> set [?A, ?B, ?C]. status y \<noteq> Some ''in_progress'')
                \<and> fifo_first [?A, ?B, ?C] ?B"
    using idle first by blast
  have n3: "\<not> ((\<forall>y \<in> set [?X, ?B]. status y \<noteq> Some ''in_progress'')
                \<and> fifo_first [?X, ?B] ?B)"
    using tied by blast
  note t1 = search_status_of_looked_up_ticket [where strip = ascii_strip and upper = ascii_upper,
        OF ds ne req nonempty fs es, of 1001 True 1002, THEN conjunct2, THEN conjunct2,
        unfolded if_not_P [OF n1] ids]
  note t2 = search_status_of_looked_up_ticket [where strip = ascii_strip and upper = ascii_upper,
        OF dw ne req nonempty fw ew, of 1001 True 1002, THEN conjunct2, THEN conjunct2,
        unfolded if_P [OF c2] ids]
  note t3 = search_status_of_looked_up_ticket [where strip = ascii_strip and upper = ascii_upper,
        OF dt ne req nonempty ft et, of 1001 True 1002, THEN conjunct2, THEN conjunct2,
        unfolded if_not_P [OF n3] ids]
  have r1: "List.find (\<lambda>x. doc_id x = 2) (bookings_col (snd (run_state
      (search ascii_strip ascii_upper 1000 1001 True 1002 (JDict [(''booking_id'', JStr '' t2 '')]))
      queue_serving))) = Some ?S2"
    by (rule t1)
  have r2: "List.find (\<lambda>x. doc_id x = 2) (bookings_col (snd (run_state
      (search ascii_strip ascii_upper 1000 1001 True 1002 (JDict [(''booking_id'', JStr '' t2 '')]))
      queue_waiting))) = Some (?B\<lparr>status := Some ''in_progress'', started_at := Some 1001\<rparr>)"
    by (rule t2)
  have r3: "List.find (\<lambda>x. doc_id x = 2) (bookings_col (snd (run_state
      (search ascii_strip ascii_upper 1000 1001 True 1002 (JDict [(''booking_id'', JStr '' t2 '')]))
      queue_tied))) = Some ?B"
    by (rule t3)
  show ?thesis
    using r1 r2 r3 by blast
qed

end
